theory Spec2Isabelle
  imports Complex_Main "HOL-Library.Multiset"
begin

section \<open>Data model (models.py)\<close>

text \<open>
  The tables of \<^verbatim>\<open>models.py\<close> that the room, task and message endpoints read or
  write. Identifiers are Python integers (\<open>int\<close>); a \<^verbatim>\<open>DateTime\<close> column is a
  point on an integer time line (microseconds). Fields carry the name of their class as
  a prefix, since every table has an \<^verbatim>\<open>id\<close>. The task columns
  \<^verbatim>\<open>created_at\<close> and \<^verbatim>\<open>updated_at\<close> are written by the storage layer only and read
  by no endpoint logic; they are left out. A task column that \<^verbatim>\<open>update_task\<close> may set to
  \<^verbatim>\<open>None\<close> is an option.
\<close>

datatype UserRole = OWNER | ADMIN | MEMBER

record Room =
  Room_id :: int
  Room_name :: string
  Room_code :: string
  Room_created_by :: int
  Room_created_at :: int

record RoomMember =
  RoomMember_id :: int
  RoomMember_room_id :: int
  RoomMember_user_id :: int
  RoomMember_role :: UserRole
  RoomMember_is_banned :: bool
  RoomMember_joined_at :: int

record Task =
  Task_id :: int
  Task_room_id :: int
  Task_title :: "string option"
  Task_description :: "string option"
  Task_assignee_id :: "int option"
  Task_completed :: "bool option"

record Message =
  Message_id :: int
  Message_room_id :: int
  Message_sender_id :: int
  Message_content :: string
  Message_created_at :: int

text \<open>
  The database session: each table is the list of its rows in storage order, the order in
  which \<^verbatim>\<open>.first()\<close> and \<^verbatim>\<open>.all()\<close> see them when the query has no \<^verbatim>\<open>order_by\<close>.
\<close>

record db =
  rooms :: "Room list"
  room_members :: "RoomMember list"
  tasks :: "Task list"
  messages :: "Message list"

definition empty_db :: db where
  "empty_db = \<lparr>rooms = [], room_members = [], tasks = [], messages = []\<rparr>"

text \<open>
  Modelled from the spec: \<^verbatim>\<open>database.py\<close> and the storage engine behind it are not part
  of the sources. The spec gives every table an auto-incrementing identifier; the model
  assigns one more than the largest identifier stored (1 in an empty table), which no
  stored row has.
\<close>

definition next_id :: "int list \<Rightarrow> int" where
  "next_id ids = fold max ids 0 + 1"

text \<open>
  \<^verbatim>\<open>raise HTTPException(status_code=..., detail=...)\<close>. The two other failures are
  Python's own: an attribute read on \<^verbatim>\<open>None\<close>, and SQLAlchemy's refusal to delete
  \<^verbatim>\<open>None\<close>.
\<close>

datatype error =
  HTTPException int string
  | AttributeError
  | UnmappedInstanceError

section \<open>Role resolution and the access guards (permissions.py)\<close>

definition membership_of :: "db \<Rightarrow> int \<Rightarrow> int \<Rightarrow> RoomMember option" where
  \<comment> \<open>\<^verbatim>\<open>db.query(RoomMember).filter(user_id == ..., room_id == ...).first()\<close>\<close>
  "membership_of s user_id room_id =
     find (\<lambda>m. RoomMember_user_id m = user_id \<and> RoomMember_room_id m = room_id)
       (room_members s)"

definition get_user_room_role :: "db \<Rightarrow> int \<Rightarrow> int \<Rightarrow> error + UserRole option" where
  "get_user_room_role s user_id room_id =
     (case membership_of s user_id room_id of
        None \<Rightarrow> Inr None
      | Some membership \<Rightarrow>
          if RoomMember_is_banned membership
          then Inl (HTTPException 403 ''You are banned from this room'')
          else Inr (Some (RoomMember_role membership)))"

definition check_room_access :: "db \<Rightarrow> int \<Rightarrow> int \<Rightarrow> error + UserRole" where
  "check_room_access s user_id room_id =
     (case get_user_room_role s user_id room_id of
        Inl e \<Rightarrow> Inl e
      | Inr None \<Rightarrow> Inl (HTTPException 403 ''You are not a member of this room'')
      | Inr (Some role) \<Rightarrow> Inr role)"

definition check_admin_access :: "db \<Rightarrow> int \<Rightarrow> int \<Rightarrow> error + UserRole" where
  "check_admin_access s user_id room_id =
     (case check_room_access s user_id room_id of
        Inl e \<Rightarrow> Inl e
      | Inr role \<Rightarrow>
          if role \<notin> {OWNER, ADMIN}
          then Inl (HTTPException 403 ''Admin rights required'')
          else Inr role)"

definition check_owner_access :: "db \<Rightarrow> int \<Rightarrow> int \<Rightarrow> error + UserRole" where
  "check_owner_access s user_id room_id =
     (case check_room_access s user_id room_id of
        Inl e \<Rightarrow> Inl e
      | Inr role \<Rightarrow>
          if role \<noteq> OWNER
          then Inl (HTTPException 403 ''Owner rights required'')
          else Inr role)"

section \<open>Room codes (utils.py)\<close>

definition alphabet :: string where
  \<comment> \<open>\<^verbatim>\<open>string.ascii_uppercase + string.digits\<close>\<close>
  "alphabet = ''ABCDEFGHIJKLMNOPQRSTUVWXYZ0123456789''"

text \<open>
  \<^verbatim>\<open>random.choices(population, k=k)\<close> picks \<open>k\<close> elements independently, each at the
  index the generator yields. The generator is a sequence \<open>rng\<close> of natural numbers read
  from position \<open>pos\<close> on; a number selects the index it has modulo the size of the
  population.
\<close>

definition choices :: "(nat \<Rightarrow> nat) \<Rightarrow> nat \<Rightarrow> string \<Rightarrow> nat \<Rightarrow> string" where
  "choices rng pos population k =
     map (\<lambda>i. population ! (rng (pos + i) mod length population)) [0..<k]"

text \<open>
  \<^verbatim>\<open>while True\<close>: the loop has no bound, so the function is partial; \<open>None\<close> is a run
  that never returns.
\<close>

partial_function (option) generate_room_code_from ::
  "db \<Rightarrow> (nat \<Rightarrow> nat) \<Rightarrow> nat \<Rightarrow> nat \<Rightarrow> string option" where
  "generate_room_code_from s rng len pos =
     (let code = choices rng pos alphabet len;
          existing = find (\<lambda>r. Room_code r = code) (rooms s)
      in if existing = None then Some code
         else generate_room_code_from s rng len (pos + len))"

definition generate_room_code :: "db \<Rightarrow> (nat \<Rightarrow> nat) \<Rightarrow> nat \<Rightarrow> string option" where
  "generate_room_code s rng len = generate_room_code_from s rng len 0"

section \<open>Room endpoints (main.py)\<close>

record RoomResponse =
  RoomResponse_id :: int
  RoomResponse_name :: string
  RoomResponse_code :: string
  RoomResponse_created_by :: int
  RoomResponse_created_at :: int
  RoomResponse_member_count :: int

definition member_count :: "db \<Rightarrow> int \<Rightarrow> int" where
  \<comment> \<open>\<^verbatim>\<open>db.query(RoomMember).filter(room_id == ..., is_banned == False).count()\<close>\<close>
  "member_count s room_id =
     int (length (filter
       (\<lambda>m. RoomMember_room_id m = room_id \<and> RoomMember_is_banned m = False)
       (room_members s)))"

definition room_response :: "Room \<Rightarrow> int \<Rightarrow> RoomResponse" where
  "room_response room n =
     \<lparr>RoomResponse_id = Room_id room, RoomResponse_name = Room_name room,
      RoomResponse_code = Room_code room, RoomResponse_created_by = Room_created_by room,
      RoomResponse_created_at = Room_created_at room, RoomResponse_member_count = n\<rparr>"

text \<open>
  \<^verbatim>\<open>create_room\<close> commits twice. The first part runs to the first
  \<^verbatim>\<open>db.commit()\<close> and \<^verbatim>\<open>db.refresh(room)\<close>: the code is generated (length 6, the
  default) and the room is stored. The second part stores the creator's membership and
  commits again. \<open>now\<close> is the reading of \<^verbatim>\<open>datetime.utcnow\<close> for the request.
\<close>

definition create_room_add_room ::
  "db \<Rightarrow> (nat \<Rightarrow> nat) \<Rightarrow> string \<Rightarrow> int \<Rightarrow> int \<Rightarrow> (db \<times> Room) option" where
  "create_room_add_room s rng name current_user now =
     (case generate_room_code s rng 6 of
        None \<Rightarrow> None
      | Some code \<Rightarrow>
          let room = \<lparr>Room_id = next_id (map Room_id (rooms s)), Room_name = name,
                      Room_code = code, Room_created_by = current_user,
                      Room_created_at = now\<rparr>
          in Some (s\<lparr>rooms := rooms s @ [room]\<rparr>, room))"

definition create_room_add_membership :: "db \<Rightarrow> Room \<Rightarrow> int \<Rightarrow> int \<Rightarrow> db" where
  "create_room_add_membership s room current_user now =
     (let membership =
            \<lparr>RoomMember_id = next_id (map RoomMember_id (room_members s)),
             RoomMember_room_id = Room_id room, RoomMember_user_id = current_user,
             RoomMember_role = OWNER, RoomMember_is_banned = False,
             RoomMember_joined_at = now\<rparr>
      in s\<lparr>room_members := room_members s @ [membership]\<rparr>)"

definition create_room ::
  "db \<Rightarrow> (nat \<Rightarrow> nat) \<Rightarrow> string \<Rightarrow> int \<Rightarrow> int \<Rightarrow> (db \<times> RoomResponse) option" where
  "create_room s rng name current_user now =
     (case create_room_add_room s rng name current_user now of
        None \<Rightarrow> None
      | Some (s1, room) \<Rightarrow>
          Some (create_room_add_membership s1 room current_user now, room_response room 1))"

definition room_of :: "db \<Rightarrow> RoomMember \<Rightarrow> Room option" where
  \<comment> \<open>the relationship \<^verbatim>\<open>membership.room\<close>: the room the foreign key names, if any\<close>
  "room_of s membership = find (\<lambda>r. Room_id r = RoomMember_room_id membership) (rooms s)"

fun get_my_rooms_loop :: "db \<Rightarrow> RoomMember list \<Rightarrow> RoomResponse list \<Rightarrow> error + RoomResponse list" where
  "get_my_rooms_loop s [] acc = Inr acc"
| "get_my_rooms_loop s (membership # rest) acc =
     (case room_of s membership of
        None \<Rightarrow> Inl AttributeError
      | Some room \<Rightarrow>
          get_my_rooms_loop s rest
            (acc @ [room_response room (member_count s (Room_id room))]))"

definition get_my_rooms :: "db \<Rightarrow> int \<Rightarrow> error + RoomResponse list" where
  "get_my_rooms s current_user =
     (let memberships = filter
            (\<lambda>m. RoomMember_user_id m = current_user \<and> RoomMember_is_banned m = False)
            (room_members s)
      in get_my_rooms_loop s memberships [])"

text \<open>
  \<^verbatim>\<open>str.upper()\<close>. A Python string is the list of the bytes of its UTF-8 encoding, so
  the string is ASCII text exactly when every byte is below 128. On ASCII text
  \<^verbatim>\<open>str.upper()\<close> maps the letters a to z to A to Z and keeps every other character.
  On text with a character outside ASCII the result is given by Python's Unicode case
  mapping, which is not part of the sources: it is the parameter \<open>unicode_upper\<close>, of
  which nothing is assumed.
\<close>

definition is_ascii :: "char \<Rightarrow> bool" where
  "is_ascii c \<longleftrightarrow> (of_char c :: nat) < 128"

definition ascii_upper :: "char \<Rightarrow> char" where
  \<comment> \<open>applied to ASCII characters only\<close>
  "ascii_upper c =
     (let n = (of_char c :: nat) in if 97 \<le> n \<and> n \<le> 122 then char_of (n - 32) else c)"

definition upper :: "(string \<Rightarrow> string) \<Rightarrow> string \<Rightarrow> string" where
  "upper unicode_upper str =
     (if list_all is_ascii str then map ascii_upper str else unicode_upper str)"

text \<open>
  A case variant of a code: the same string up to the case of its ASCII letters, each
  character either kept or replaced by its lower-case letter.
\<close>

definition char_lower :: "char \<Rightarrow> char" where
  "char_lower c =
     (let n = (of_char c :: nat) in if 65 \<le> n \<and> n \<le> 90 then char_of (n + 32) else c)"

definition case_variant :: "string \<Rightarrow> string \<Rightarrow> bool" where
  "case_variant v code \<longleftrightarrow> list_all2 (\<lambda>x y. x = y \<or> x = char_lower y) v code"

definition join_room ::
  "(string \<Rightarrow> string) \<Rightarrow> db \<Rightarrow> string \<Rightarrow> int \<Rightarrow> int \<Rightarrow> error + (db \<times> RoomResponse)" where
  "join_room unicode_upper s code current_user now =
     (case find (\<lambda>r. Room_code r = upper unicode_upper code) (rooms s) of
        None \<Rightarrow> Inl (HTTPException 404 ''Room not found'')
      | Some room \<Rightarrow>
          (case find (\<lambda>m. RoomMember_room_id m = Room_id room \<and>
                           RoomMember_user_id m = current_user) (room_members s) of
             Some existing \<Rightarrow>
               if RoomMember_is_banned existing
               then Inl (HTTPException 403 ''You are banned from this room'')
               else Inl (HTTPException 400 ''Already a member'')
           | None \<Rightarrow>
               let membership =
                     \<lparr>RoomMember_id = next_id (map RoomMember_id (room_members s)),
                      RoomMember_room_id = Room_id room, RoomMember_user_id = current_user,
                      RoomMember_role = MEMBER, RoomMember_is_banned = False,
                      RoomMember_joined_at = now\<rparr>;
                   s' = s\<lparr>room_members := room_members s @ [membership]\<rparr>
               in Inr (s', room_response room (member_count s' (Room_id room)))))"

text \<open>
  \<^verbatim>\<open>db.delete(room)\<close> removes the room and, by the cascade of the relationships, the
  members, tasks and messages that refer to it.
\<close>

definition delete_room :: "db \<Rightarrow> int \<Rightarrow> int \<Rightarrow> error + db" where
  "delete_room s room_id current_user =
     (case check_owner_access s current_user room_id of
        Inl e \<Rightarrow> Inl e
      | Inr _ \<Rightarrow>
          (case find (\<lambda>r. Room_id r = room_id) (rooms s) of
             None \<Rightarrow> Inl UnmappedInstanceError
           | Some room \<Rightarrow>
               Inr (s\<lparr>rooms := remove1 room (rooms s),
                      room_members :=
                        filter (\<lambda>m. RoomMember_room_id m \<noteq> Room_id room) (room_members s),
                      tasks := filter (\<lambda>t. Task_room_id t \<noteq> Room_id room) (tasks s),
                      messages :=
                        filter (\<lambda>m. Message_room_id m \<noteq> Room_id room) (messages s)\<rparr>)))"

definition leave_room :: "db \<Rightarrow> int \<Rightarrow> int \<Rightarrow> error + db" where
  "leave_room s room_id current_user =
     (case find (\<lambda>m. RoomMember_room_id m = room_id \<and> RoomMember_user_id m = current_user)
             (room_members s) of
        None \<Rightarrow> Inl (HTTPException 404 ''Not a member'')
      | Some membership \<Rightarrow>
          if RoomMember_role membership = OWNER
          then Inl (HTTPException 400 ''Owner cannot leave the room. Delete it instead.'')
          else Inr (s\<lparr>room_members := remove1 membership (room_members s)\<rparr>))"

text \<open>
  An attribute written on the row that \<^verbatim>\<open>.first()\<close> returned, then committed: the
  first row that satisfies the filter is replaced.
\<close>

fun update_first :: "('a \<Rightarrow> bool) \<Rightarrow> ('a \<Rightarrow> 'a) \<Rightarrow> 'a list \<Rightarrow> 'a list" where
  "update_first P f [] = []"
| "update_first P f (x # xs) = (if P x then f x # xs else x # update_first P f xs)"

definition ban_user :: "db \<Rightarrow> int \<Rightarrow> int \<Rightarrow> int \<Rightarrow> error + db" where
  "ban_user s room_id user_id current_user =
     (case check_owner_access s current_user room_id of
        Inl e \<Rightarrow> Inl e
      | Inr _ \<Rightarrow>
          (case find (\<lambda>m. RoomMember_room_id m = room_id \<and> RoomMember_user_id m = user_id)
                  (room_members s) of
             None \<Rightarrow> Inl (HTTPException 404 ''User not found in room'')
           | Some membership \<Rightarrow>
               if RoomMember_role membership = OWNER
               then Inl (HTTPException 400 ''Cannot ban owner'')
               else Inr (s\<lparr>room_members :=
                 update_first
                   (\<lambda>m. RoomMember_room_id m = room_id \<and> RoomMember_user_id m = user_id)
                   (\<lambda>m. m\<lparr>RoomMember_is_banned := True\<rparr>) (room_members s)\<rparr>)))"

definition unban_user :: "db \<Rightarrow> int \<Rightarrow> int \<Rightarrow> int \<Rightarrow> error + db" where
  "unban_user s room_id user_id current_user =
     (case check_owner_access s current_user room_id of
        Inl e \<Rightarrow> Inl e
      | Inr _ \<Rightarrow>
          (case find (\<lambda>m. RoomMember_room_id m = room_id \<and> RoomMember_user_id m = user_id)
                  (room_members s) of
             None \<Rightarrow> Inl (HTTPException 404 ''User not found in room'')
           | Some membership \<Rightarrow>
               Inr (s\<lparr>room_members :=
                 update_first
                   (\<lambda>m. RoomMember_room_id m = room_id \<and> RoomMember_user_id m = user_id)
                   (\<lambda>m. m\<lparr>RoomMember_is_banned := False\<rparr>) (room_members s)\<rparr>)))"

definition kick_user :: "db \<Rightarrow> int \<Rightarrow> int \<Rightarrow> int \<Rightarrow> error + db" where
  "kick_user s room_id user_id current_user =
     (case check_owner_access s current_user room_id of
        Inl e \<Rightarrow> Inl e
      | Inr _ \<Rightarrow>
          (case find (\<lambda>m. RoomMember_room_id m = room_id \<and> RoomMember_user_id m = user_id)
                  (room_members s) of
             None \<Rightarrow> Inl (HTTPException 404 ''User not found in room'')
           | Some membership \<Rightarrow>
               if RoomMember_role membership = OWNER
               then Inl (HTTPException 400 ''Cannot kick owner'')
               else Inr (s\<lparr>room_members := remove1 membership (room_members s)\<rparr>)))"

section \<open>Task endpoints (main.py)\<close>

record TaskCreate =
  TaskCreate_title :: string
  TaskCreate_description :: "string option"
  TaskCreate_assignee_id :: int

text \<open>
  \<^verbatim>\<open>TaskUpdate\<close> with \<^verbatim>\<open>dict(exclude_unset=True)\<close>: a field the request does not
  name is \<open>None\<close>; a field it names is \<open>Some v\<close>, where \<open>v\<close> is the value sent, which
  may itself be \<^verbatim>\<open>None\<close>.
\<close>

record TaskUpdate =
  TaskUpdate_title :: "string option option"
  TaskUpdate_description :: "string option option"
  TaskUpdate_assignee_id :: "int option option"
  TaskUpdate_completed :: "bool option option"

definition create_task :: "db \<Rightarrow> int \<Rightarrow> TaskCreate \<Rightarrow> int \<Rightarrow> error + (db \<times> Task)" where
  "create_task s room_id task_data current_user =
     (case check_room_access s current_user room_id of
        Inl e \<Rightarrow> Inl e
      | Inr _ \<Rightarrow>
          let task = \<lparr>Task_id = next_id (map Task_id (tasks s)), Task_room_id = room_id,
                      Task_title = Some (TaskCreate_title task_data),
                      Task_description = TaskCreate_description task_data,
                      Task_assignee_id = Some (TaskCreate_assignee_id task_data),
                      Task_completed = Some False\<rparr>
          in Inr (s\<lparr>tasks := tasks s @ [task]\<rparr>, task))"

definition setattrs :: "TaskUpdate \<Rightarrow> Task \<Rightarrow> Task" where
  \<comment> \<open>\<^verbatim>\<open>for key, value in task_data.dict(exclude_unset=True).items(): setattr(task, key, value)\<close>\<close>
  "setattrs task_data task =
     task\<lparr>Task_title := (case TaskUpdate_title task_data of None \<Rightarrow> Task_title task | Some v \<Rightarrow> v),
          Task_description :=
            (case TaskUpdate_description task_data of None \<Rightarrow> Task_description task | Some v \<Rightarrow> v),
          Task_assignee_id :=
            (case TaskUpdate_assignee_id task_data of None \<Rightarrow> Task_assignee_id task | Some v \<Rightarrow> v),
          Task_completed :=
            (case TaskUpdate_completed task_data of None \<Rightarrow> Task_completed task | Some v \<Rightarrow> v)\<rparr>"

definition update_task :: "db \<Rightarrow> int \<Rightarrow> int \<Rightarrow> TaskUpdate \<Rightarrow> int \<Rightarrow> error + (db \<times> Task)" where
  "update_task s room_id task_id task_data current_user =
     (case check_room_access s current_user room_id of
        Inl e \<Rightarrow> Inl e
      | Inr role \<Rightarrow>
          (case find (\<lambda>t. Task_id t = task_id \<and> Task_room_id t = room_id) (tasks s) of
             None \<Rightarrow> Inl (HTTPException 404 ''Task not found'')
           | Some task \<Rightarrow>
               if role = MEMBER \<and> Task_assignee_id task \<noteq> Some current_user
               then Inl (HTTPException 403 ''Can only edit your own tasks'')
               else Inr (s\<lparr>tasks :=
                           update_first (\<lambda>t. Task_id t = task_id \<and> Task_room_id t = room_id)
                             (setattrs task_data) (tasks s)\<rparr>,
                         setattrs task_data task)))"

definition delete_task :: "db \<Rightarrow> int \<Rightarrow> int \<Rightarrow> int \<Rightarrow> error + db" where
  "delete_task s room_id task_id current_user =
     (case check_room_access s current_user room_id of
        Inl e \<Rightarrow> Inl e
      | Inr role \<Rightarrow>
          (case find (\<lambda>t. Task_id t = task_id \<and> Task_room_id t = room_id) (tasks s) of
             None \<Rightarrow> Inl (HTTPException 404 ''Task not found'')
           | Some task \<Rightarrow>
               if role = MEMBER \<and> Task_assignee_id task \<noteq> Some current_user
               then Inl (HTTPException 403 ''Can only delete your own tasks'')
               else Inr (s\<lparr>tasks := remove1 task (tasks s)\<rparr>)))"

section \<open>Message endpoints (main.py)\<close>

text \<open>
  \<^verbatim>\<open>order_by(created_at.asc())\<close> and \<^verbatim>\<open>order_by(created_at.desc())\<close> are insertion
  sorts on the creation time; rows of equal creation time stay in storage order (the
  source leaves their order to the storage engine). The \<^verbatim>\<open>limit\<close> of the plain fetch is
  a natural number: what a negative limit selects is the storage engine's matter.
\<close>

definition get_messages :: "db \<Rightarrow> int \<Rightarrow> nat \<Rightarrow> int \<Rightarrow> error + Message list" where
  "get_messages s room_id limit current_user =
     (case check_room_access s current_user room_id of
        Inl e \<Rightarrow> Inl e
      | Inr _ \<Rightarrow>
          let messages = take limit
                (sort_key (\<lambda>m. - Message_created_at m)
                   (filter (\<lambda>m. Message_room_id m = room_id) (messages s)))
          in Inr (rev messages))"

definition create_message :: "db \<Rightarrow> int \<Rightarrow> string \<Rightarrow> int \<Rightarrow> int \<Rightarrow> error + (db \<times> Message)" where
  "create_message s room_id content current_user now =
     (case check_room_access s current_user room_id of
        Inl e \<Rightarrow> Inl e
      | Inr _ \<Rightarrow>
          let message = \<lparr>Message_id = next_id (map Message_id (messages s)),
                         Message_room_id = room_id, Message_sender_id = current_user,
                         Message_content = content, Message_created_at = now\<rparr>
          in Inr (s\<lparr>messages := messages s @ [message]\<rparr>, message))"

definition new_messages_query :: "db \<Rightarrow> int \<Rightarrow> int \<Rightarrow> Message list" where
  \<comment> \<open>the query of one pass of the polling loop\<close>
  "new_messages_query s room_id last_message_id =
     (let query = filter (\<lambda>m. Message_room_id m = room_id) (messages s);
          query = (if last_message_id > 0
                   then filter (\<lambda>m. Message_id m > last_message_id) query else query)
      in sort_key Message_created_at query)"

text \<open>
  The polling loop. Other requests write while it sleeps, and the clock advances:
  \<open>world i\<close> is the database as pass \<open>i\<close> of the loop reads it (after
  \<^verbatim>\<open>db.expire_all()\<close>), \<open>clock i\<close> the reading of the event loop's clock in that pass,
  \<open>start_time\<close> the reading before the loop. \<open>None\<close> is a loop that never returns.
\<close>

partial_function (option) poll_loop ::
  "(nat \<Rightarrow> db) \<Rightarrow> (nat \<Rightarrow> real) \<Rightarrow> real \<Rightarrow> int \<Rightarrow> int \<Rightarrow> int \<Rightarrow> nat \<Rightarrow> Message list option" where
  "poll_loop world clock start_time room_id last_message_id timeout i =
     (let new_messages = new_messages_query (world i) room_id last_message_id
      in if new_messages \<noteq> [] then Some new_messages
         else let elapsed = clock i - start_time
              in if elapsed \<ge> real_of_int timeout then Some []
                 else poll_loop world clock start_time room_id last_message_id timeout (Suc i))"

definition poll_messages ::
  "db \<Rightarrow> (nat \<Rightarrow> db) \<Rightarrow> (nat \<Rightarrow> real) \<Rightarrow> real \<Rightarrow> int \<Rightarrow> int \<Rightarrow> int \<Rightarrow> int
     \<Rightarrow> (error + Message list) option" where
  "poll_messages s world clock start_time room_id last_message_id timeout current_user =
     (case check_room_access s current_user room_id of
        Inl e \<Rightarrow> Some (Inl e)
      | Inr _ \<Rightarrow>
          map_option Inr
            (poll_loop world clock start_time room_id last_message_id (min timeout 30) 0))"

section \<open>The system as a whole\<close>

text \<open>
  A request to one of the endpoints that write, with its arguments; \<open>nu\<close> is the
  Unicode case mapping that \<^verbatim>\<open>join_room\<close> takes. \<open>after nu s rq\<close> is the
  database once the request has been served: what the endpoint committed, or \<open>s\<close> itself
  when the endpoint raised or never returned.
\<close>

datatype request =
  CreateRoom "nat \<Rightarrow> nat" string int int
  | JoinRoom string int int
  | DeleteRoom int int
  | LeaveRoom int int
  | BanUser int int int
  | UnbanUser int int int
  | KickUser int int int
  | CreateTask int TaskCreate int
  | UpdateTask int int TaskUpdate int
  | DeleteTask int int int
  | CreateMessage int string int int

definition committed :: "db \<Rightarrow> error + db \<Rightarrow> db" where
  "committed s res = (case res of Inl e \<Rightarrow> s | Inr s' \<Rightarrow> s')"

fun after :: "(string \<Rightarrow> string) \<Rightarrow> db \<Rightarrow> request \<Rightarrow> db" where
  "after nu s (CreateRoom rng name current_user now) =
     (case create_room s rng name current_user now of None \<Rightarrow> s | Some (s', _) \<Rightarrow> s')"
| "after nu s (JoinRoom code current_user now) =
     committed s (map_sum id fst (join_room nu s code current_user now))"
| "after nu s (DeleteRoom room_id current_user) = committed s (delete_room s room_id current_user)"
| "after nu s (LeaveRoom room_id current_user) = committed s (leave_room s room_id current_user)"
| "after nu s (BanUser room_id user_id current_user) =
     committed s (ban_user s room_id user_id current_user)"
| "after nu s (UnbanUser room_id user_id current_user) =
     committed s (unban_user s room_id user_id current_user)"
| "after nu s (KickUser room_id user_id current_user) =
     committed s (kick_user s room_id user_id current_user)"
| "after nu s (CreateTask room_id task_data current_user) =
     committed s (map_sum id fst (create_task s room_id task_data current_user))"
| "after nu s (UpdateTask room_id task_id task_data current_user) =
     committed s (map_sum id fst (update_task s room_id task_id task_data current_user))"
| "after nu s (DeleteTask room_id task_id current_user) =
     committed s (delete_task s room_id task_id current_user)"
| "after nu s (CreateMessage room_id content current_user now) =
     committed s (map_sum id fst (create_message s room_id content current_user now))"

inductive reachable :: "(string \<Rightarrow> string) \<Rightarrow> db \<Rightarrow> bool" for nu where
  init: "reachable nu empty_db"
| step: "reachable nu s \<Longrightarrow> reachable nu (after nu s rq)"

text \<open>
  The states that the database holds after some \<^verbatim>\<open>db.commit()\<close>, with requests served
  one after the other: the states between requests, and the state that the first commit of
  \<^verbatim>\<open>create_room\<close> stores.
\<close>

inductive stored :: "(string \<Rightarrow> string) \<Rightarrow> db \<Rightarrow> bool" for nu where
  served: "reachable nu s \<Longrightarrow> stored nu s"
| first_commit:
    "reachable nu s \<Longrightarrow> create_room_add_room s rng name current_user now = Some (s1, room)
       \<Longrightarrow> stored nu s1"

section \<open>Properties of a stored state\<close>

definition owners :: "db \<Rightarrow> int \<Rightarrow> RoomMember list" where
  "owners s room_id =
     filter (\<lambda>m. RoomMember_room_id m = room_id \<and> RoomMember_role m = OWNER) (room_members s)"

definition memberships :: "db \<Rightarrow> int \<Rightarrow> int \<Rightarrow> RoomMember list" where
  "memberships s room_id user_id =
     filter (\<lambda>m. RoomMember_room_id m = room_id \<and> RoomMember_user_id m = user_id)
       (room_members s)"

definition valid_code :: "string \<Rightarrow> bool" where
  "valid_code code \<longleftrightarrow> length code = 6 \<and> list_all (\<lambda>c. c \<in> set alphabet) code"

definition unique_memberships :: "db \<Rightarrow> bool" where
  \<comment> \<open>at most one membership for a user and a room\<close>
  "unique_memberships s \<longleftrightarrow>
     distinct (map (\<lambda>m. (RoomMember_room_id m, RoomMember_user_id m)) (room_members s))"

text \<open>
  A well-formed database: room identifiers and room codes are unique, every code is six
  characters of the alphabet, every membership belongs to a stored room, a user has at most
  one membership in a room, and every room has exactly one membership of role OWNER. The
  empty database is well-formed and every request keeps it so (\<open>reachable_wf_db\<close> below).
\<close>

definition wf_db :: "db \<Rightarrow> bool" where
  "wf_db s \<longleftrightarrow>
     distinct (map Room_id (rooms s)) \<and>
     distinct (map Room_code (rooms s)) \<and>
     list_all (\<lambda>r. valid_code (Room_code r)) (rooms s) \<and>
     list_all (\<lambda>m. RoomMember_room_id m \<in> set (map Room_id (rooms s))) (room_members s) \<and>
     unique_memberships s \<and>
     list_all (\<lambda>r. length (owners s (Room_id r)) = 1) (rooms s)"

section \<open>Example inputs\<close>

text \<open>
  One room with code AAAAAA: user 1 owns it, user 2 is banned, user 3 is a member, user 4
  an admin. Three messages, three tasks. A generator that draws AAAAAA first and BBBBBB
  ever after.
\<close>

definition member :: "int \<Rightarrow> int \<Rightarrow> int \<Rightarrow> UserRole \<Rightarrow> bool \<Rightarrow> RoomMember" where
  "member i room_id user_id role banned =
     \<lparr>RoomMember_id = i, RoomMember_room_id = room_id, RoomMember_user_id = user_id,
      RoomMember_role = role, RoomMember_is_banned = banned, RoomMember_joined_at = 0\<rparr>"

definition message :: "int \<Rightarrow> int \<Rightarrow> Message" where
  "message i created_at =
     \<lparr>Message_id = i, Message_room_id = 1, Message_sender_id = 1, Message_content = ''hello'',
      Message_created_at = created_at\<rparr>"

definition task :: "int \<Rightarrow> int \<Rightarrow> Task" where
  "task i assignee =
     \<lparr>Task_id = i, Task_room_id = 1, Task_title = Some ''dishes'', Task_description = None,
      Task_assignee_id = Some assignee, Task_completed = Some False\<rparr>"

definition room_A :: Room where
  "room_A = \<lparr>Room_id = 1, Room_name = ''flat'', Room_code = ''AAAAAA'', Room_created_by = 1,
             Room_created_at = 0\<rparr>"

definition db_example :: db where
  "db_example =
     \<lparr>rooms = [room_A],
      room_members = [member 1 1 1 OWNER False, member 2 1 2 MEMBER True,
                      member 3 1 3 MEMBER False, member 4 1 4 ADMIN False],
      tasks = [task 1 1, task 2 3, task 3 4],
      messages = [message 1 10, message 2 20, message 3 30]\<rparr>"

definition rng_AB :: "nat \<Rightarrow> nat" where
  "rng_AB i = (if i < 6 then 0 else 1)"

text \<open>The database after user 1 has created the first room, and after its first commit.\<close>

definition db_created :: db where
  "db_created = \<lparr>rooms = [room_A], room_members = [member 1 1 1 OWNER False], tasks = [],
                  messages = []\<rparr>"

definition db_first_commit :: db where
  "db_first_commit = \<lparr>rooms = [room_A], room_members = [], tasks = [], messages = []\<rparr>"

text \<open>
  A clock that advances by the half second the polling loop sleeps; a world in which
  nothing is written; and a world in which message 4 appears before the third pass.
\<close>

definition clock_half :: "nat \<Rightarrow> real" where
  "clock_half i = real i / 2"

definition world_quiet :: "nat \<Rightarrow> db" where
  "world_quiet i = db_example"

definition world_B :: "nat \<Rightarrow> db" where
  "world_B i =
     (if i < 2 then db_example
      else db_example\<lparr>messages := messages db_example @ [message 4 40]\<rparr>)"

section \<open>Lookups in a table\<close>

lemma find_key_unique:
  "distinct (map f xs) \<Longrightarrow> x \<in> set xs \<Longrightarrow> find (\<lambda>y. f y = f x) xs = Some x"
  by (induction xs) (auto simp: image_iff)

lemma find_membership_unique:
  assumes "unique_memberships s" "m \<in> set (room_members s)"
    "RoomMember_room_id m = r" "RoomMember_user_id m = u"
  shows "find (\<lambda>m. RoomMember_room_id m = r \<and> RoomMember_user_id m = u) (room_members s) = Some m"
proof -
  have "find (\<lambda>y. (RoomMember_room_id y, RoomMember_user_id y)
                   = (RoomMember_room_id m, RoomMember_user_id m)) (room_members s) = Some m"
    using assms(1,2) unfolding unique_memberships_def by (rule find_key_unique)
  then show ?thesis using assms(3,4) by simp
qed

lemma membership_of_unique:
  assumes "unique_memberships s" "m \<in> set (room_members s)"
    "RoomMember_room_id m = r" "RoomMember_user_id m = u"
  shows "membership_of s u r = Some m"
proof -
  have "membership_of s u r
      = find (\<lambda>m. RoomMember_room_id m = r \<and> RoomMember_user_id m = u) (room_members s)"
    unfolding membership_of_def by (rule find_cong) auto
  then show ?thesis
    using find_membership_unique[OF assms] by simp
qed

lemma unique_memberships_example: "unique_memberships db_example"
  by (simp add: db_example_def unique_memberships_def member_def)

section \<open>Role resolution\<close>

text \<open>
  C2. In a database with at most one membership for a user and a room, role resolution
  raises the 403 ban failure when a membership of the user in the room is banned, so it
  returns no role for a banned user; it returns \<open>None\<close> (not a member), a normal result,
  when there is no membership; and it returns the stored role otherwise.
\<close>

theorem C2_get_user_room_role:
  assumes "unique_memberships s"
  shows "((\<exists>m \<in> set (room_members s). RoomMember_user_id m = u \<and> RoomMember_room_id m = r
             \<and> RoomMember_is_banned m)
          \<longrightarrow> get_user_room_role s u r = Inl (HTTPException 403 ''You are banned from this room''))
       \<and> ((\<forall>m \<in> set (room_members s). \<not> (RoomMember_user_id m = u \<and> RoomMember_room_id m = r))
          \<longrightarrow> get_user_room_role s u r = Inr None)
       \<and> (\<forall>m \<in> set (room_members s). RoomMember_user_id m = u \<and> RoomMember_room_id m = r
             \<and> \<not> RoomMember_is_banned m
          \<longrightarrow> get_user_room_role s u r = Inr (Some (RoomMember_role m)))"
proof (intro conjI impI ballI)
  assume "\<exists>m \<in> set (room_members s). RoomMember_user_id m = u \<and> RoomMember_room_id m = r
             \<and> RoomMember_is_banned m"
  then obtain m where m: "m \<in> set (room_members s)" "RoomMember_user_id m = u"
    "RoomMember_room_id m = r" "RoomMember_is_banned m" by blast
  have "membership_of s u r = Some m"
    using membership_of_unique[OF assms m(1) m(3) m(2)] .
  then show "get_user_room_role s u r = Inl (HTTPException 403 ''You are banned from this room'')"
    using m(4) by (simp add: get_user_room_role_def)
next
  assume "\<forall>m \<in> set (room_members s). \<not> (RoomMember_user_id m = u \<and> RoomMember_room_id m = r)"
  then have "membership_of s u r = None"
    by (simp add: membership_of_def find_None_iff)
  then show "get_user_room_role s u r = Inr None"
    by (simp add: get_user_room_role_def)
next
  fix m assume m: "m \<in> set (room_members s)"
    "RoomMember_user_id m = u \<and> RoomMember_room_id m = r \<and> \<not> RoomMember_is_banned m"
  have "membership_of s u r = Some m"
    using membership_of_unique[OF assms m(1)] m(2) by simp
  then show "get_user_room_role s u r = Inr (Some (RoomMember_role m))"
    using m(2) by (simp add: get_user_room_role_def)
qed

theorem C2_get_user_room_role_witness:
  "unique_memberships db_example
   \<and> get_user_room_role db_example 2 1 = Inl (HTTPException 403 ''You are banned from this room'')
   \<and> get_user_room_role db_example 5 1 = Inr None
   \<and> get_user_room_role db_example 4 1 = Inr (Some ADMIN)"
proof -
  note u = unique_memberships_example
  have "get_user_room_role db_example 2 1 = Inl (HTTPException 403 ''You are banned from this room'')"
    using C2_get_user_room_role[OF u, of 2 1] by (simp add: db_example_def member_def)
  moreover have "get_user_room_role db_example 5 1 = Inr None"
    using C2_get_user_room_role[OF u, of 5 1] by (simp add: db_example_def member_def)
  moreover have "get_user_room_role db_example 4 1 = Inr (Some ADMIN)"
    using C2_get_user_room_role[OF u, of 4 1] by (simp add: db_example_def member_def)
  ultimately show ?thesis using u by simp
qed

section \<open>Room code generation\<close>

lemma choices_length: "length (choices rng pos pop k) = k"
  by (simp add: choices_def)

lemma choices_alphabet: "c \<in> set (choices rng pos alphabet k) \<Longrightarrow> c \<in> set alphabet"
proof -
  assume "c \<in> set (choices rng pos alphabet k)"
  then obtain i where "c = alphabet ! (rng (pos + i) mod length alphabet)"
    by (auto simp: choices_def)
  moreover have "0 < length alphabet" by (simp add: alphabet_def)
  ultimately show ?thesis by (simp add: nth_mem)
qed

lemma generate_from_Some:
  assumes "generate_room_code_from s rng len pos = Some code"
  shows "length code = len \<and> set code \<subseteq> set alphabet \<and> code \<notin> Room_code ` set (rooms s)"
proof (rule generate_room_code_from.raw_induct
    [where P = "\<lambda>s rng len pos code.
        length code = len \<and> set code \<subseteq> set alphabet \<and> code \<notin> Room_code ` set (rooms s)",
     OF _ assms])
  fix f :: "db \<Rightarrow> (nat \<Rightarrow> nat) \<Rightarrow> nat \<Rightarrow> nat \<Rightarrow> string option" and s rng len pos code
  assume IH: "\<And>s rng len pos code. f s rng len pos = Some code \<Longrightarrow>
      length code = len \<and> set code \<subseteq> set alphabet \<and> code \<notin> Room_code ` set (rooms s)"
  assume eq: "(let code = choices rng pos alphabet len;
          existing = find (\<lambda>r. Room_code r = code) (rooms s)
      in if existing = None then Some code else f s rng len (pos + len)) = Some code"
  show "length code = len \<and> set code \<subseteq> set alphabet \<and> code \<notin> Room_code ` set (rooms s)"
  proof (cases "find (\<lambda>r. Room_code r = choices rng pos alphabet len) (rooms s)")
    case None
    with eq have c: "code = choices rng pos alphabet len" by (simp add: Let_def)
    from None have "choices rng pos alphabet len \<notin> Room_code ` set (rooms s)"
      by (auto simp: find_None_iff)
    with c show ?thesis using choices_alphabet by (auto simp: choices_length)
  next
    case (Some r)
    with eq have "f s rng len (pos + len) = Some code" by (simp add: Let_def)
    then show ?thesis by (rule IH)
  qed
qed

lemma generate_from_first_free:
  "(\<And>i. i < n \<Longrightarrow> choices rng (pos + i * len) alphabet len \<in> Room_code ` set (rooms s)) \<Longrightarrow>
   choices rng (pos + n * len) alphabet len \<notin> Room_code ` set (rooms s) \<Longrightarrow>
   generate_room_code_from s rng len pos = Some (choices rng (pos + n * len) alphabet len)"
proof (induction n arbitrary: pos)
  case 0
  then have "find (\<lambda>r. Room_code r = choices rng pos alphabet len) (rooms s) = None"
    by (auto simp: find_None_iff image_iff)
  then show ?case
    by (subst generate_room_code_from.simps) (simp add: Let_def)
next
  case (Suc n)
  have "choices rng pos alphabet len \<in> Room_code ` set (rooms s)"
    using Suc.prems(1)[of 0] by simp
  then have "find (\<lambda>r. Room_code r = choices rng pos alphabet len) (rooms s) \<noteq> None"
    by (auto simp: find_None_iff)
  then obtain r0 where "find (\<lambda>r. Room_code r = choices rng pos alphabet len) (rooms s) = Some r0"
    by blast
  moreover have "generate_room_code_from s rng len (pos + len)
      = Some (choices rng ((pos + len) + n * len) alphabet len)"
  proof (rule Suc.IH)
    fix i assume "i < n"
    then show "choices rng (pos + len + i * len) alphabet len \<in> Room_code ` set (rooms s)"
      using Suc.prems(1)[of "Suc i"] by (simp add: add.assoc)
  next
    show "choices rng (pos + len + n * len) alphabet len \<notin> Room_code ` set (rooms s)"
      using Suc.prems(2) by (simp add: add.assoc)
  qed
  ultimately show ?case
    by (subst generate_room_code_from.simps) (simp add: Let_def add.assoc)
qed

text \<open>
  C9. A code that \<^verbatim>\<open>generate_room_code\<close> returns has the length asked for (6 by default,
  the length \<^verbatim>\<open>create_room\<close> uses), consists of characters of the alphabet A to Z and 0 to
  9, and is the code of no stored room. A draw that collides is not reported: the loop draws
  again, and the first draw whose code is free is the value returned (draw \<open>i\<close> reads
  the generator from position \<open>i * len\<close>).
\<close>

theorem C9_generate_room_code:
  "(generate_room_code s rng len = Some code \<longrightarrow>
      length code = len \<and> (\<forall>c \<in> set code. c \<in> set ''ABCDEFGHIJKLMNOPQRSTUVWXYZ0123456789'')
      \<and> (\<forall>r \<in> set (rooms s). Room_code r \<noteq> code))
   \<and> ((\<forall>i < n. choices rng (i * len) alphabet len \<in> Room_code ` set (rooms s))
        \<and> choices rng (n * len) alphabet len \<notin> Room_code ` set (rooms s) \<longrightarrow>
      generate_room_code s rng len = Some (choices rng (n * len) alphabet len))"
proof -
  have "length code = len \<and> (\<forall>c \<in> set code. c \<in> set ''ABCDEFGHIJKLMNOPQRSTUVWXYZ0123456789'')
      \<and> (\<forall>r \<in> set (rooms s). Room_code r \<noteq> code)"
    if "generate_room_code s rng len = Some code"
  proof -
    have "length code = len \<and> set code \<subseteq> set alphabet \<and> code \<notin> Room_code ` set (rooms s)"
      using that unfolding generate_room_code_def by (rule generate_from_Some)
    then show ?thesis unfolding alphabet_def by blast
  qed
  moreover have "generate_room_code s rng len = Some (choices rng (n * len) alphabet len)"
    if a: "(\<forall>i < n. choices rng (i * len) alphabet len \<in> Room_code ` set (rooms s))
        \<and> choices rng (n * len) alphabet len \<notin> Room_code ` set (rooms s)"
  proof -
    have "generate_room_code_from s rng len 0 = Some (choices rng (0 + n * len) alphabet len)"
      by (rule generate_from_first_free) (use a in simp_all)
    then show ?thesis by (simp add: generate_room_code_def)
  qed
  ultimately show ?thesis by blast
qed

lemma choices_rng_AB:
  "choices rng_AB 0 alphabet 6 = ''AAAAAA''" "choices rng_AB 6 alphabet 6 = ''BBBBBB''"
  by (simp_all add: choices_def rng_AB_def alphabet_def upt_rec)

theorem C9_generate_room_code_witness:
  "generate_room_code db_example rng_AB 6 = Some ''BBBBBB''
   \<and> length ''BBBBBB'' = (6::nat) \<and> ''BBBBBB'' \<noteq> Room_code room_A"
proof -
  have g: "generate_room_code db_example rng_AB 6 = Some ''BBBBBB''"
    using C9_generate_room_code[of db_example rng_AB 6 "''BBBBBB''" 1] choices_rng_AB
    by (simp add: db_example_def room_A_def)
  show ?thesis
    using g C9_generate_room_code[of db_example rng_AB 6 "''BBBBBB''" 1]
    by (simp add: db_example_def room_A_def)
qed

section \<open>The plain message fetch\<close>

lemma sorted_desc_rev:
  "sorted (map (\<lambda>m. - f m) xs) \<Longrightarrow> sorted (map (f :: 'a \<Rightarrow> int) (rev xs))"
  by (induction xs) (auto simp: sorted_append)

lemma sorted_take_drop_le:
  assumes "sorted (map (\<lambda>m. - f m) xs)" "a \<in> set (take n xs)" "b \<in> set (drop n xs)"
  shows "(f b :: int) \<le> f a"
proof -
  have "sorted (map (\<lambda>m. - f m) (take n xs) @ map (\<lambda>m. - f m) (drop n xs))"
    using assms(1) by (simp flip: map_append)
  then have "\<forall>x \<in> set (map (\<lambda>m. - f m) (take n xs)). \<forall>y \<in> set (map (\<lambda>m. - f m) (drop n xs)). x \<le> y"
    by (simp only: sorted_append) blast
  then have "- f a \<le> - f b" using assms(2,3) by auto
  then show ?thesis by simp
qed

lemma mset_minus_take:
  "mset xs - mset (rev (take n xs)) = mset (drop n xs)"
proof -
  have "mset xs = mset (take n xs) + mset (drop n xs)"
    by (metis append_take_drop_id mset_append)
  then show ?thesis by simp
qed

lemma get_messages_as_member:
  assumes "check_room_access s u r = Inr role"
  shows "get_messages s r limit u =
    Inr (rev (take limit (sort_key (\<lambda>m. - Message_created_at m)
            (filter (\<lambda>m. Message_room_id m = r) (messages s)))))"
  using assms by (simp add: get_messages_def)

lemma check_room_access_example:
  "check_room_access db_example 3 1 = Inr MEMBER"
  "check_room_access db_example 1 1 = Inr OWNER"
  "check_room_access db_example 4 1 = Inr ADMIN"
  by (simp_all add: check_room_access_def get_user_room_role_def membership_of_def
        db_example_def member_def)

lemma get_messages_example:
  "get_messages db_example 1 2 3 = Inr [message 2 20, message 3 30]"
  unfolding get_messages_as_member[OF check_room_access_example(1)]
  by (simp add: db_example_def message_def)

text \<open>
  C6. For a member of the room, the plain fetch returns the reversal of the newest-first
  query truncated to \<open>limit\<close> (100 when the request names none): the result is in
  ascending order of creation time, has \<open>limit\<close> messages or all of the room's if there
  are fewer, holds only messages of the room, and every message of the room it leaves out
  is no newer than any it returns. With messages 1, 2, 3 stored and \<open>limit = 2\<close> it
  returns 2, 3 in this order (the witness below).
\<close>

theorem C6_get_messages:
  assumes "check_room_access s u r = Inr role"
  shows "\<exists>ms. get_messages s r limit u = Inr ms
     \<and> ms = rev (take limit (sort_key (\<lambda>m. - Message_created_at m)
                  (filter (\<lambda>m. Message_room_id m = r) (messages s))))
     \<and> sorted (map Message_created_at ms)
     \<and> length ms = min limit (length (filter (\<lambda>m. Message_room_id m = r) (messages s)))
     \<and> mset ms \<subseteq># mset (filter (\<lambda>m. Message_room_id m = r) (messages s))
     \<and> (\<forall>old \<in># mset (filter (\<lambda>m. Message_room_id m = r) (messages s)) - mset ms.
          \<forall>m \<in> set ms. Message_created_at old \<le> Message_created_at m)"
proof -
  define room where "room = filter (\<lambda>m. Message_room_id m = r) (messages s)"
  define xs where "xs = sort_key (\<lambda>m. - Message_created_at m) room"
  define ms where "ms = rev (take limit xs)"
  have desc: "sorted (map (\<lambda>m. - Message_created_at m) xs)"
    unfolding xs_def by (rule sorted_sort_key)
  have mset_xs: "mset xs = mset room" unfolding xs_def by simp
  have len_xs: "length xs = length room" unfolding xs_def by simp
  have 1: "get_messages s r limit u = Inr ms"
    unfolding ms_def xs_def room_def by (rule get_messages_as_member[OF assms])
  have "sorted (map (\<lambda>m. - Message_created_at m) (take limit xs))"
    using desc by (simp add: sorted_map sorted_wrt_take)
  then have 2: "sorted (map Message_created_at ms)"
    unfolding ms_def by (rule sorted_desc_rev)
  have 3: "length ms = min limit (length room)"
    unfolding ms_def by (simp add: len_xs min.commute)
  have "mset (take limit xs) \<subseteq># mset xs"
    by (metis append_take_drop_id mset_append mset_subset_eq_add_left)
  then have 4: "mset ms \<subseteq># mset room"
    unfolding ms_def by (simp add: mset_xs)
  have rest: "mset room - mset ms = mset (drop limit xs)"
    unfolding ms_def mset_xs[symmetric] by (rule mset_minus_take)
  have 5: "\<forall>old \<in># mset room - mset ms. \<forall>m \<in> set ms. Message_created_at old \<le> Message_created_at m"
  proof (intro ballI)
    fix old m assume a: "old \<in># mset room - mset ms" and b: "m \<in> set ms"
    from a have "old \<in># mset (drop limit xs)" unfolding rest .
    moreover from b have "m \<in> set (take limit xs)" by (simp add: ms_def)
    ultimately have "old \<in> set (drop limit xs)" "m \<in> set (take limit xs)"
      by simp_all
    then show "Message_created_at old \<le> Message_created_at m"
      using sorted_take_drop_le[OF desc] by blast
  qed
  show ?thesis
    using 1 2 3 4 5 unfolding ms_def xs_def room_def by blast
qed

theorem C6_get_messages_witness:
  "check_room_access db_example 3 1 = Inr MEMBER
   \<and> get_messages db_example 1 2 3 = Inr [message 2 20, message 3 30]
   \<and> sorted (map Message_created_at [message 2 20, message 3 30])"
proof -
  note access = check_room_access_example(1)
  from C6_get_messages[OF access, of 2] obtain ms where
    "get_messages db_example 1 2 3 = Inr ms" "sorted (map Message_created_at ms)"
    by blast
  with get_messages_example have "sorted (map Message_created_at [message 2 20, message 3 30])"
    by simp
  with access get_messages_example show ?thesis by simp
qed

section \<open>The polling loop\<close>

lemma sort_key_Nil_iff: "sort_key f xs = [] \<longleftrightarrow> xs = []"
  by (metis length_0_conv length_sort)

lemma new_messages_query_empty_iff:
  "0 < cur \<Longrightarrow> new_messages_query s r cur = [] \<longleftrightarrow>
     \<not> (\<exists>m \<in> set (messages s). Message_room_id m = r \<and> cur < Message_id m)"
  by (auto simp: new_messages_query_def sort_key_Nil_iff filter_empty_conv)

lemma new_messages_query_filtered:
  "0 < cur \<Longrightarrow> new_messages_query s r cur =
     sort_key Message_created_at
       (filter (\<lambda>m. Message_room_id m = r \<and> cur < Message_id m) (messages s))"
  by (simp add: new_messages_query_def conj_commute)

lemma new_messages_query_unfiltered:
  "new_messages_query s r 0 =
     sort_key Message_created_at (filter (\<lambda>m. Message_room_id m = r) (messages s))"
  by (simp add: new_messages_query_def)

lemma poll_loop_found:
  "(\<And>i. i < n \<Longrightarrow> new_messages_query (world (k + i)) r cur = []
        \<and> clock (k + i) - start < real_of_int t) \<Longrightarrow>
   new_messages_query (world (k + n)) r cur \<noteq> [] \<Longrightarrow>
   poll_loop world clock start r cur t k = Some (new_messages_query (world (k + n)) r cur)"
proof (induction n arbitrary: k)
  case 0
  then show ?case by (subst poll_loop.simps) simp
next
  case (Suc n)
  have now: "new_messages_query (world k) r cur = []" "clock k - start < real_of_int t"
    using Suc.prems(1)[of 0] by simp_all
  have "poll_loop world clock start r cur t (Suc k)
      = Some (new_messages_query (world (Suc k + n)) r cur)"
  proof (rule Suc.IH)
    fix i assume "i < n"
    then show "new_messages_query (world (Suc k + i)) r cur = []
        \<and> clock (Suc k + i) - start < real_of_int t"
      using Suc.prems(1)[of "Suc i"] by simp
  next
    show "new_messages_query (world (Suc k + n)) r cur \<noteq> []"
      using Suc.prems(2) by simp
  qed
  then show ?case using now by (subst poll_loop.simps) simp
qed

lemma poll_loop_timed_out:
  "(\<And>i. i < n \<Longrightarrow> new_messages_query (world (k + i)) r cur = []
        \<and> clock (k + i) - start < real_of_int t) \<Longrightarrow>
   new_messages_query (world (k + n)) r cur = [] \<Longrightarrow>
   real_of_int t \<le> clock (k + n) - start \<Longrightarrow>
   poll_loop world clock start r cur t k = Some []"
proof (induction n arbitrary: k)
  case 0
  then show ?case by (subst poll_loop.simps) simp
next
  case (Suc n)
  have now: "new_messages_query (world k) r cur = []" "clock k - start < real_of_int t"
    using Suc.prems(1)[of 0] by simp_all
  have "poll_loop world clock start r cur t (Suc k) = Some []"
  proof (rule Suc.IH)
    fix i assume "i < n"
    then show "new_messages_query (world (Suc k + i)) r cur = []
        \<and> clock (Suc k + i) - start < real_of_int t"
      using Suc.prems(1)[of "Suc i"] by simp
  next
    show "new_messages_query (world (Suc k + n)) r cur = []"
      using Suc.prems(2) by simp
    show "real_of_int t \<le> clock (Suc k + n) - start"
      using Suc.prems(3) by simp
  qed
  then show ?case using now by (subst poll_loop.simps) simp
qed

lemma poll_loop_returns:
  "real_of_int t \<le> clock (k + n) - start \<Longrightarrow>
   \<exists>ms. poll_loop world clock start r cur t k = Some ms"
proof (induction n arbitrary: k)
  case 0
  then show ?case by (subst poll_loop.simps) (simp add: Let_def)
next
  case (Suc n)
  then have "\<exists>ms. poll_loop world clock start r cur t (Suc k) = Some ms"
    by simp
  then show ?case by (subst poll_loop.simps) (simp add: Let_def)
qed

lemma poll_loop_nonempty:
  assumes "poll_loop world clock start r cur t k = Some ms"
  shows "ms \<noteq> [] \<longrightarrow> (\<exists>n. ms = new_messages_query (world n) r cur)"
proof (rule poll_loop.raw_induct
    [where P = "\<lambda>world clock start r cur t k ms.
        ms \<noteq> [] \<longrightarrow> (\<exists>n. ms = new_messages_query (world n) r cur)",
     OF _ assms])
  fix f :: "(nat \<Rightarrow> db) \<Rightarrow> (nat \<Rightarrow> real) \<Rightarrow> real \<Rightarrow> int \<Rightarrow> int \<Rightarrow> int \<Rightarrow> nat \<Rightarrow> Message list option"
    and world clock start r cur t k ms
  assume IH: "\<And>world clock start r cur t k ms. f world clock start r cur t k = Some ms \<Longrightarrow>
      ms \<noteq> [] \<longrightarrow> (\<exists>n. ms = new_messages_query (world n) r cur)"
  assume eq: "(let new_messages = new_messages_query (world k) r cur
      in if new_messages \<noteq> [] then Some new_messages
         else let elapsed = clock k - start
              in if real_of_int t \<le> elapsed then Some []
                 else f world clock start r cur t (Suc k)) = Some ms"
  show "ms \<noteq> [] \<longrightarrow> (\<exists>n. ms = new_messages_query (world n) r cur)"
  proof (cases "new_messages_query (world k) r cur \<noteq> []")
    case True
    with eq have "ms = new_messages_query (world k) r cur" by simp
    then show ?thesis by blast
  next
    case False
    show ?thesis
    proof (cases "real_of_int t \<le> clock k - start")
      case True
      with False eq have "ms = []" by simp
      then show ?thesis by simp
    next
      case False
      with \<open>\<not> new_messages_query (world k) r cur \<noteq> []\<close> eq
      have "f world clock start r cur t (Suc k) = Some ms" by simp
      then show ?thesis by (rule IH)
    qed
  qed
qed

lemma poll_loop_empty:
  assumes "poll_loop world clock start r cur t k = Some ms"
  shows "ms = [] \<longrightarrow> (\<exists>n \<ge> k. (\<forall>i. k \<le> i \<and> i \<le> n \<longrightarrow> new_messages_query (world i) r cur = [])
      \<and> (\<forall>i. k \<le> i \<and> i < n \<longrightarrow> clock i - start < real_of_int t)
      \<and> real_of_int t \<le> clock n - start)"
proof (rule poll_loop.raw_induct
    [where P = "\<lambda>world clock start r cur t k ms.
        ms = [] \<longrightarrow> (\<exists>n \<ge> k. (\<forall>i. k \<le> i \<and> i \<le> n \<longrightarrow> new_messages_query (world i) r cur = [])
      \<and> (\<forall>i. k \<le> i \<and> i < n \<longrightarrow> clock i - start < real_of_int t)
      \<and> real_of_int t \<le> clock n - start)",
     OF _ assms])
  fix f :: "(nat \<Rightarrow> db) \<Rightarrow> (nat \<Rightarrow> real) \<Rightarrow> real \<Rightarrow> int \<Rightarrow> int \<Rightarrow> int \<Rightarrow> nat \<Rightarrow> Message list option"
    and world clock start r cur t k ms
  assume IH: "\<And>world clock start r cur t k ms. f world clock start r cur t k = Some ms \<Longrightarrow>
      ms = [] \<longrightarrow> (\<exists>n \<ge> k. (\<forall>i. k \<le> i \<and> i \<le> n \<longrightarrow> new_messages_query (world i) r cur = [])
      \<and> (\<forall>i. k \<le> i \<and> i < n \<longrightarrow> clock i - start < real_of_int t)
      \<and> real_of_int t \<le> clock n - start)"
  assume eq: "(let new_messages = new_messages_query (world k) r cur
      in if new_messages \<noteq> [] then Some new_messages
         else let elapsed = clock k - start
              in if real_of_int t \<le> elapsed then Some []
                 else f world clock start r cur t (Suc k)) = Some ms"
  show "ms = [] \<longrightarrow> (\<exists>n \<ge> k. (\<forall>i. k \<le> i \<and> i \<le> n \<longrightarrow> new_messages_query (world i) r cur = [])
      \<and> (\<forall>i. k \<le> i \<and> i < n \<longrightarrow> clock i - start < real_of_int t)
      \<and> real_of_int t \<le> clock n - start)"
  proof
    assume empty: "ms = []"
    show "\<exists>n \<ge> k. (\<forall>i. k \<le> i \<and> i \<le> n \<longrightarrow> new_messages_query (world i) r cur = [])
      \<and> (\<forall>i. k \<le> i \<and> i < n \<longrightarrow> clock i - start < real_of_int t)
      \<and> real_of_int t \<le> clock n - start"
    proof (cases "new_messages_query (world k) r cur \<noteq> []")
      case True
      with eq have "ms = new_messages_query (world k) r cur" by simp
      with True empty show ?thesis by simp
    next
      case False
      then have q: "new_messages_query (world k) r cur = []" by simp
      show ?thesis
      proof (cases "real_of_int t \<le> clock k - start")
        case True
        with q have "k \<ge> k \<and> (\<forall>i. k \<le> i \<and> i \<le> k \<longrightarrow> new_messages_query (world i) r cur = [])
          \<and> (\<forall>i. k \<le> i \<and> i < k \<longrightarrow> clock i - start < real_of_int t)
          \<and> real_of_int t \<le> clock k - start"
          by (auto simp: le_antisym)
        then show ?thesis by blast
      next
        case False
        with q eq have "f world clock start r cur t (Suc k) = Some ms" by simp
        from IH[OF this] empty obtain n where n: "Suc k \<le> n"
          "\<forall>i. Suc k \<le> i \<and> i \<le> n \<longrightarrow> new_messages_query (world i) r cur = []"
          "\<forall>i. Suc k \<le> i \<and> i < n \<longrightarrow> clock i - start < real_of_int t"
          "real_of_int t \<le> clock n - start"
          by blast
        have a: "\<forall>i. k \<le> i \<and> i \<le> n \<longrightarrow> new_messages_query (world i) r cur = []"
        proof (intro allI impI)
          fix i assume "k \<le> i \<and> i \<le> n"
          then consider "i = k" | "Suc k \<le> i \<and> i \<le> n" by linarith
          then show "new_messages_query (world i) r cur = []"
            using q n(2) by cases auto
        qed
        have b: "\<forall>i. k \<le> i \<and> i < n \<longrightarrow> clock i - start < real_of_int t"
        proof (intro allI impI)
          fix i assume "k \<le> i \<and> i < n"
          then consider "i = k" | "Suc k \<le> i \<and> i < n" by linarith
          then show "clock i - start < real_of_int t"
            using False n(3) by cases auto
        qed
        from n(1) have "k \<le> n" by simp
        with a b n(4) show ?thesis by blast
      qed
    qed
  qed
qed

lemma poll_messages_as_member:
  "check_room_access s u r = Inr role \<Longrightarrow>
   poll_messages s world clock start r cur timeout u
     = map_option Inr (poll_loop world clock start r cur (min timeout 30) 0)"
  by (simp add: poll_messages_def)

text \<open>
  C4. A poll by a member, with a cursor above 0: if pass \<open>n\<close> of the loop is the first
  in which the room has a message with an identifier above the cursor (no earlier pass saw
  one, and none reached the timeout), the poll returns in that pass exactly those messages,
  in ascending order of creation time. A non-empty result is always the result of the query
  of some pass. With cursor 0 the query has no filter on the identifier: it selects every
  message of the room.
\<close>

theorem C4_poll_messages:
  assumes "check_room_access s u r = Inr role"
  shows "(0 < cur
          \<and> (\<forall>i < n. \<not> (\<exists>m \<in> set (messages (world i)). Message_room_id m = r \<and> cur < Message_id m)
                     \<and> clock i - start < real_of_int (min timeout 30))
          \<and> (\<exists>m \<in> set (messages (world n)). Message_room_id m = r \<and> cur < Message_id m)
         \<longrightarrow> (\<exists>ms. poll_messages s world clock start r cur timeout u = Some (Inr ms)
                \<and> ms \<noteq> []
                \<and> mset ms = mset (filter (\<lambda>m. Message_room_id m = r \<and> cur < Message_id m)
                                    (messages (world n)))
                \<and> sorted (map Message_created_at ms)))
       \<and> (\<forall>ms. poll_messages s world clock start r cur timeout u = Some (Inr ms) \<and> ms \<noteq> []
            \<longrightarrow> (\<exists>k. ms = new_messages_query (world k) r cur))
       \<and> new_messages_query (world n) r 0
           = sort_key Message_created_at
               (filter (\<lambda>m. Message_room_id m = r) (messages (world n)))"
proof -
  note pm = poll_messages_as_member[OF assms]
  have 1: "\<exists>ms. poll_messages s world clock start r cur timeout u = Some (Inr ms)
                \<and> ms \<noteq> []
                \<and> mset ms = mset (filter (\<lambda>m. Message_room_id m = r \<and> cur < Message_id m)
                                    (messages (world n)))
                \<and> sorted (map Message_created_at ms)"
    if a: "0 < cur
          \<and> (\<forall>i < n. \<not> (\<exists>m \<in> set (messages (world i)). Message_room_id m = r \<and> cur < Message_id m)
                     \<and> clock i - start < real_of_int (min timeout 30))
          \<and> (\<exists>m \<in> set (messages (world n)). Message_room_id m = r \<and> cur < Message_id m)"
  proof -
    from a have pos: "0 < cur" by simp
    have "poll_loop world clock start r cur (min timeout 30) 0
        = Some (new_messages_query (world (0 + n)) r cur)"
    proof (rule poll_loop_found)
      fix i assume "i < n"
      with a show "new_messages_query (world (0 + i)) r cur = []
          \<and> clock (0 + i) - start < real_of_int (min timeout 30)"
        by (simp add: new_messages_query_empty_iff[OF pos])
    next
      from a show "new_messages_query (world (0 + n)) r cur \<noteq> []"
        by (simp add: new_messages_query_empty_iff[OF pos])
    qed
    then have "poll_messages s world clock start r cur timeout u
        = Some (Inr (new_messages_query (world n) r cur))"
      by (simp add: pm)
    moreover from a have "new_messages_query (world n) r cur \<noteq> []"
      by (simp add: new_messages_query_empty_iff[OF pos])
    moreover have "mset (new_messages_query (world n) r cur)
        = mset (filter (\<lambda>m. Message_room_id m = r \<and> cur < Message_id m) (messages (world n)))"
      by (simp add: new_messages_query_filtered[OF pos])
    moreover have "sorted (map Message_created_at (new_messages_query (world n) r cur))"
      by (simp add: new_messages_query_filtered[OF pos])
    ultimately show ?thesis by blast
  qed
  have 2: "\<exists>k. ms = new_messages_query (world k) r cur"
    if b: "poll_messages s world clock start r cur timeout u = Some (Inr ms) \<and> ms \<noteq> []" for ms
  proof -
    from b have "poll_loop world clock start r cur (min timeout 30) 0 = Some ms"
      by (auto simp: pm)
    from poll_loop_nonempty[OF this] b show ?thesis by simp
  qed
  show ?thesis using 1 2 new_messages_query_unfiltered by blast
qed

text \<open>
  C5. A poll by a member waits as it would with the timeout \<open>min timeout 30\<close>, whatever
  the request asks for. If no pass up to pass \<open>n\<close> finds a message and pass \<open>n\<close> is the
  first whose elapsed time has reached the clamped timeout, the poll returns the empty
  list, as a normal result. It returns the empty list in no other way: when the result is
  empty, some pass had reached the clamped timeout, no pass before it had, and none up to
  it found a message. Once the elapsed time has reached 30 seconds the poll has returned. A
  poll by a member never returns a failure.
\<close>

theorem C5_poll_timeout:
  assumes "check_room_access s u r = Inr role"
  shows "poll_messages s world clock start r cur timeout u
           = poll_messages s world clock start r cur (min timeout 30) u
       \<and> ((\<forall>i \<le> n. new_messages_query (world i) r cur = [])
           \<and> (\<forall>i < n. clock i - start < real_of_int (min timeout 30))
           \<and> real_of_int (min timeout 30) \<le> clock n - start
          \<longrightarrow> poll_messages s world clock start r cur timeout u = Some (Inr []))
       \<and> (poll_messages s world clock start r cur timeout u = Some (Inr [])
          \<longrightarrow> (\<exists>k. (\<forall>i \<le> k. new_messages_query (world i) r cur = [])
                 \<and> (\<forall>i < k. clock i - start < real_of_int (min timeout 30))
                 \<and> real_of_int (min timeout 30) \<le> clock k - start))
       \<and> (30 \<le> clock n - start
          \<longrightarrow> (\<exists>ms. poll_messages s world clock start r cur timeout u = Some (Inr ms)))
       \<and> (\<forall>e. poll_messages s world clock start r cur timeout u \<noteq> Some (Inl e))"
proof -
  note pm = poll_messages_as_member[OF assms]
  have 1: "poll_messages s world clock start r cur timeout u
           = poll_messages s world clock start r cur (min timeout 30) u"
    by (simp add: pm)
  have 2: "poll_messages s world clock start r cur timeout u = Some (Inr [])"
    if a: "(\<forall>i \<le> n. new_messages_query (world i) r cur = [])
           \<and> (\<forall>i < n. clock i - start < real_of_int (min timeout 30))
           \<and> real_of_int (min timeout 30) \<le> clock n - start"
  proof -
    have "poll_loop world clock start r cur (min timeout 30) 0 = Some []"
      by (rule poll_loop_timed_out[where n = n]) (use a in simp_all)
    then show ?thesis by (simp add: pm)
  qed
  have 3: "\<exists>ms. poll_messages s world clock start r cur timeout u = Some (Inr ms)"
    if c: "30 \<le> clock n - start"
  proof -
    have "real_of_int (min timeout 30) \<le> 30" by simp
    with c have "real_of_int (min timeout 30) \<le> clock (0 + n) - start" by simp
    from poll_loop_returns[where clock = clock and k = 0 and n = n, OF this]
    show ?thesis by (auto simp: pm)
  qed
  have 4: "\<forall>e. poll_messages s world clock start r cur timeout u \<noteq> Some (Inl e)"
    by (auto simp: pm)
  have 5: "\<exists>k. (\<forall>i \<le> k. new_messages_query (world i) r cur = [])
                 \<and> (\<forall>i < k. clock i - start < real_of_int (min timeout 30))
                 \<and> real_of_int (min timeout 30) \<le> clock k - start"
    if d: "poll_messages s world clock start r cur timeout u = Some (Inr [])"
  proof -
    from d have "poll_loop world clock start r cur (min timeout 30) 0 = Some []"
      by (auto simp: pm)
    from poll_loop_empty[OF this] obtain k where
      "\<forall>i. 0 \<le> i \<and> i \<le> k \<longrightarrow> new_messages_query (world i) r cur = []"
      "\<forall>i. 0 \<le> i \<and> i < k \<longrightarrow> clock i - start < real_of_int (min timeout 30)"
      "real_of_int (min timeout 30) \<le> clock k - start"
      by blast
    then show ?thesis by auto
  qed
  show ?thesis using 1 2 3 4 5 by blast
qed

theorem C4_poll_messages_witness:
  "check_room_access db_example 3 1 = Inr MEMBER
   \<and> poll_messages db_example world_B clock_half 0 1 3 5 3 = Some (Inr [message 4 40])"
proof -
  note access = check_room_access_example(1)
  have quiet: "\<forall>i < 2. \<not> (\<exists>m \<in> set (messages (world_B i)). Message_room_id m = 1 \<and> 3 < Message_id m)
      \<and> clock_half i - 0 < real_of_int (min 5 30)"
    by (auto simp: world_B_def db_example_def message_def clock_half_def)
  have found: "\<exists>m \<in> set (messages (world_B 2)). Message_room_id m = 1 \<and> 3 < Message_id m"
    by (simp add: world_B_def db_example_def message_def)
  have hyp: "0 < (3::int)
      \<and> (\<forall>i < 2. \<not> (\<exists>m \<in> set (messages (world_B i)). Message_room_id m = 1 \<and> 3 < Message_id m)
            \<and> clock_half i - 0 < real_of_int (min 5 30))
      \<and> (\<exists>m \<in> set (messages (world_B 2)). Message_room_id m = 1 \<and> 3 < Message_id m)"
    using quiet found by simp
  from C4_poll_messages[OF access, where cur = 3 and n = 2 and world = world_B
      and clock = clock_half and start = 0 and timeout = 5] hyp
  obtain ms where ms: "poll_messages db_example world_B clock_half 0 1 3 5 3 = Some (Inr ms)"
    "mset ms = mset (filter (\<lambda>m. Message_room_id m = 1 \<and> 3 < Message_id m) (messages (world_B 2)))"
    by blast
  from ms(2) have "mset ms = {#message 4 40#}"
    by (simp add: world_B_def db_example_def message_def)
  then have "ms = [message 4 40]" by simp
  with ms(1) access show ?thesis by simp
qed

theorem C5_poll_timeout_witness:
  "check_room_access db_example 3 1 = Inr MEMBER
   \<and> poll_messages db_example world_quiet clock_half 0 1 3 100 3 = Some (Inr [])"
proof -
  note access = check_room_access_example(1)
  have none: "\<forall>i \<le> 60. new_messages_query (world_quiet i) 1 3 = []"
    by (simp add: world_quiet_def new_messages_query_def db_example_def message_def)
  have early: "\<forall>i < 60. clock_half i - 0 < real_of_int (min 100 30)"
    by (simp add: clock_half_def)
  have late: "real_of_int (min 100 30) \<le> clock_half 60 - 0"
    by (simp add: clock_half_def)
  from C5_poll_timeout[OF access, where n = 60 and world = world_quiet and cur = 3
      and clock = clock_half and start = 0 and timeout = 100] none early late
  have "poll_messages db_example world_quiet clock_half 0 1 3 100 3 = Some (Inr [])"
    by blast
  with access show ?thesis by simp
qed

section \<open>Editing and deleting tasks\<close>

text \<open>
  C8. A caller whose role in the room is MEMBER and who is not the assignee of the task
  named gets the 403 failure from both the update and the delete, and the database is
  left as it was. A caller whose role is ADMIN or OWNER is let through whoever the
  assignee is: the update applies the fields sent to the task, the delete removes it.
\<close>

theorem C8_task_permissions:
  "(check_room_access s u r = Inr MEMBER
      \<and> find (\<lambda>t. Task_id t = tid \<and> Task_room_id t = r) (tasks s) = Some t
      \<and> Task_assignee_id t \<noteq> Some u
     \<longrightarrow> update_task s r tid d u = Inl (HTTPException 403 ''Can only edit your own tasks'')
       \<and> delete_task s r tid u = Inl (HTTPException 403 ''Can only delete your own tasks'')
       \<and> after nu s (UpdateTask r tid d u) = s
       \<and> after nu s (DeleteTask r tid u) = s)
   \<and> (check_room_access s u r = Inr role \<and> (role = ADMIN \<or> role = OWNER)
      \<and> find (\<lambda>t. Task_id t = tid \<and> Task_room_id t = r) (tasks s) = Some t
     \<longrightarrow> update_task s r tid d u
           = Inr (s\<lparr>tasks := update_first (\<lambda>t. Task_id t = tid \<and> Task_room_id t = r)
                                (setattrs d) (tasks s)\<rparr>, setattrs d t)
       \<and> delete_task s r tid u = Inr (s\<lparr>tasks := remove1 t (tasks s)\<rparr>))"
  by (auto simp: update_task_def delete_task_def committed_def)

theorem C8_task_permissions_witness:
  "update_task db_example 1 1 \<lparr>TaskUpdate_title = None, TaskUpdate_description = None,
       TaskUpdate_assignee_id = None, TaskUpdate_completed = Some (Some True)\<rparr> 3
     = Inl (HTTPException 403 ''Can only edit your own tasks'')
   \<and> delete_task db_example 1 1 3 = Inl (HTTPException 403 ''Can only delete your own tasks'')
   \<and> delete_task db_example 1 2 4 = Inr (db_example\<lparr>tasks := [task 1 1, task 3 4]\<rparr>)"
proof -
  have f1: "find (\<lambda>t. Task_id t = 1 \<and> Task_room_id t = 1) (tasks db_example) = Some (task 1 1)"
    by (simp add: db_example_def task_def)
  have f2: "find (\<lambda>t. Task_id t = 2 \<and> Task_room_id t = 1) (tasks db_example) = Some (task 2 3)"
    by (simp add: db_example_def task_def)
  have a: "Task_assignee_id (task 1 1) \<noteq> Some 3" by (simp add: task_def)
  have r: "remove1 (task 2 3) (tasks db_example) = [task 1 1, task 3 4]"
    by (simp add: db_example_def task_def)
  show ?thesis
    using C8_task_permissions[where s = db_example and u = 3 and r = 1 and tid = 1
        and t = "task 1 1" and role = ADMIN and nu = id]
      C8_task_permissions[where s = db_example and u = 4 and r = 1 and tid = 2
        and t = "task 2 3" and role = ADMIN and nu = id]
      check_room_access_example f1 f2 a r
    by simp
qed

section \<open>The room listing\<close>

lemma room_of_Some:
  "RoomMember_room_id m \<in> set (map Room_id (rooms s)) \<Longrightarrow>
   \<exists>room \<in> set (rooms s). Room_id room = RoomMember_room_id m \<and> room_of s m = Some room"
proof -
  assume "RoomMember_room_id m \<in> set (map Room_id (rooms s))"
  then have "find (\<lambda>r. Room_id r = RoomMember_room_id m) (rooms s) \<noteq> None"
    by (auto simp: find_None_iff)
  then obtain room where f: "find (\<lambda>r. Room_id r = RoomMember_room_id m) (rooms s) = Some room"
    by blast
  then have "room \<in> set (rooms s) \<and> Room_id room = RoomMember_room_id m"
    by (auto simp: find_Some_iff)
  with f show ?thesis by (auto simp: room_of_def)
qed

lemma get_my_rooms_loop_ok:
  "list_all (\<lambda>m. RoomMember_room_id m \<in> set (map Room_id (rooms s))) ms \<Longrightarrow>
   \<exists>rs. get_my_rooms_loop s ms acc = Inr (acc @ rs)
      \<and> list_all2 (\<lambda>m resp. \<exists>room \<in> set (rooms s). Room_id room = RoomMember_room_id m
            \<and> resp = room_response room (member_count s (Room_id room))) ms rs"
proof (induction ms arbitrary: acc)
  case Nil
  then show ?case by simp
next
  case (Cons m ms)
  from Cons.prems obtain room where room: "room \<in> set (rooms s)"
    "Room_id room = RoomMember_room_id m" "room_of s m = Some room"
    using room_of_Some[of m s] by auto
  from Cons.prems have "list_all (\<lambda>m. RoomMember_room_id m \<in> set (map Room_id (rooms s))) ms"
    by simp
  from Cons.IH[OF this, of "acc @ [room_response room (member_count s (Room_id room))]"]
  obtain rs where rs: "get_my_rooms_loop s ms (acc @ [room_response room (member_count s (Room_id room))])
      = Inr ((acc @ [room_response room (member_count s (Room_id room))]) @ rs)"
    "list_all2 (\<lambda>m resp. \<exists>room \<in> set (rooms s). Room_id room = RoomMember_room_id m
            \<and> resp = room_response room (member_count s (Room_id room))) ms rs"
    by blast
  have "get_my_rooms_loop s (m # ms) acc
      = Inr (acc @ (room_response room (member_count s (Room_id room)) # rs))"
    using room(3) rs(1) by simp
  moreover have "list_all2 (\<lambda>m resp. \<exists>room \<in> set (rooms s). Room_id room = RoomMember_room_id m
            \<and> resp = room_response room (member_count s (Room_id room)))
        (m # ms) (room_response room (member_count s (Room_id room)) # rs)"
    using room(1,2) rs(2) by auto
  ultimately show ?case by blast
qed

lemma wf_db_refs:
  "wf_db s \<Longrightarrow> list_all (\<lambda>m. RoomMember_room_id m \<in> set (map Room_id (rooms s))) (room_members s)"
  by (simp add: wf_db_def)

lemma wf_db_unique: "wf_db s \<Longrightarrow> unique_memberships s"
  by (simp add: wf_db_def)

lemma unique_memberships_eq:
  assumes "unique_memberships s" "m \<in> set (room_members s)" "m' \<in> set (room_members s)"
    "RoomMember_room_id m = RoomMember_room_id m'" "RoomMember_user_id m = RoomMember_user_id m'"
  shows "m = m'"
proof -
  have "inj_on (\<lambda>m. (RoomMember_room_id m, RoomMember_user_id m)) (set (room_members s))"
    using assms(1) unfolding unique_memberships_def by (simp add: distinct_map)
  then show ?thesis using assms(2-5) by (auto dest: inj_onD)
qed

text \<open>
  C10. In a well-formed database the room listing of a user never fails. It has one entry
  for each membership of the user that is not banned, in storage order, and no other: the
  entry carries the identifier, name, code, creator and creation time of the room of that
  membership, and its member count is the number of memberships of that room that are not
  banned. A room in which the user's membership is banned is not listed, and no ban failure
  is raised for it.
\<close>

theorem C10_get_my_rooms:
  assumes "wf_db s"
  shows "\<exists>rs. get_my_rooms s u = Inr rs
     \<and> list_all2
         (\<lambda>m resp. \<exists>room \<in> set (rooms s). Room_id room = RoomMember_room_id m
            \<and> resp = \<lparr>RoomResponse_id = Room_id room, RoomResponse_name = Room_name room,
                 RoomResponse_code = Room_code room,
                 RoomResponse_created_by = Room_created_by room,
                 RoomResponse_created_at = Room_created_at room,
                 RoomResponse_member_count =
                   int (length (filter (\<lambda>m'. RoomMember_room_id m' = Room_id room
                                  \<and> \<not> RoomMember_is_banned m') (room_members s)))\<rparr>)
         (filter (\<lambda>m. RoomMember_user_id m = u \<and> \<not> RoomMember_is_banned m) (room_members s)) rs
     \<and> (\<forall>m \<in> set (room_members s). RoomMember_user_id m = u \<and> RoomMember_is_banned m
          \<longrightarrow> RoomMember_room_id m \<notin> RoomResponse_id ` set rs)"
proof -
  define ms where "ms = filter (\<lambda>m. RoomMember_user_id m = u \<and> \<not> RoomMember_is_banned m) (room_members s)"
  have "list_all (\<lambda>m. RoomMember_room_id m \<in> set (map Room_id (rooms s))) ms"
    using wf_db_refs[OF assms] unfolding ms_def by (auto simp: list_all_iff)
  from get_my_rooms_loop_ok[OF this, of "[]"] obtain rs where
    rs: "get_my_rooms_loop s ms [] = Inr rs"
    "list_all2 (\<lambda>m resp. \<exists>room \<in> set (rooms s). Room_id room = RoomMember_room_id m
            \<and> resp = room_response room (member_count s (Room_id room))) ms rs"
    by auto
  have 1: "get_my_rooms s u = Inr rs"
    using rs(1) by (simp add: get_my_rooms_def ms_def)
  have ids: "map RoomResponse_id rs = map RoomMember_room_id ms"
    using rs(2) by (induction ms rs rule: list_all2_induct) (auto simp: room_response_def)
  have 3: "RoomMember_room_id m \<notin> RoomResponse_id ` set rs"
    if m: "m \<in> set (room_members s)" "RoomMember_user_id m = u \<and> RoomMember_is_banned m" for m
  proof
    assume "RoomMember_room_id m \<in> RoomResponse_id ` set rs"
    then have "RoomMember_room_id m \<in> set (map RoomMember_room_id ms)"
      by (simp flip: ids)
    then obtain m' where m': "m' \<in> set ms" "RoomMember_room_id m' = RoomMember_room_id m"
      by auto
    then have "m' \<in> set (room_members s)" "RoomMember_user_id m' = u" "\<not> RoomMember_is_banned m'"
      by (simp_all add: ms_def)
    with m m'(2) have "m = m'"
      using unique_memberships_eq[OF wf_db_unique[OF assms], of m m'] by simp
    with m(2) \<open>\<not> RoomMember_is_banned m'\<close> show False by simp
  qed
  show ?thesis
    using 1 rs(2) 3 unfolding ms_def member_count_def room_response_def by auto
qed


lemma wf_db_example: "wf_db db_example"
  by (simp add: wf_db_def db_example_def room_A_def member_def valid_code_def alphabet_def
        unique_memberships_def owners_def)

theorem C10_get_my_rooms_witness:
  "wf_db db_example \<and> get_my_rooms db_example 2 = Inr []
   \<and> get_my_rooms db_example 3
       = Inr [\<lparr>RoomResponse_id = 1, RoomResponse_name = ''flat'',
        RoomResponse_code = ''AAAAAA'', RoomResponse_created_by = 1,
        RoomResponse_created_at = 0, RoomResponse_member_count = 3\<rparr>]"
proof -
  note wf = wf_db_example
  from C10_get_my_rooms[OF wf, of 2] obtain rs where rs: "get_my_rooms db_example 2 = Inr rs"
    "list_all2
         (\<lambda>m resp. \<exists>room \<in> set (rooms db_example). Room_id room = RoomMember_room_id m
            \<and> resp = \<lparr>RoomResponse_id = Room_id room, RoomResponse_name = Room_name room,
                 RoomResponse_code = Room_code room,
                 RoomResponse_created_by = Room_created_by room,
                 RoomResponse_created_at = Room_created_at room,
                 RoomResponse_member_count =
                   int (length (filter (\<lambda>m'. RoomMember_room_id m' = Room_id room
                                  \<and> \<not> RoomMember_is_banned m') (room_members db_example)))\<rparr>)
         (filter (\<lambda>m. RoomMember_user_id m = 2 \<and> \<not> RoomMember_is_banned m) (room_members db_example)) rs"
    by blast
  from rs(2) have "rs = []" by (simp add: db_example_def member_def)
  with rs(1) have banned: "get_my_rooms db_example 2 = Inr []" by simp
  from C10_get_my_rooms[OF wf, of 3] obtain rs' where rs': "get_my_rooms db_example 3 = Inr rs'"
    "list_all2
         (\<lambda>m resp. \<exists>room \<in> set (rooms db_example). Room_id room = RoomMember_room_id m
            \<and> resp = \<lparr>RoomResponse_id = Room_id room, RoomResponse_name = Room_name room,
                 RoomResponse_code = Room_code room,
                 RoomResponse_created_by = Room_created_by room,
                 RoomResponse_created_at = Room_created_at room,
                 RoomResponse_member_count =
                   int (length (filter (\<lambda>m'. RoomMember_room_id m' = Room_id room
                                  \<and> \<not> RoomMember_is_banned m') (room_members db_example)))\<rparr>)
         (filter (\<lambda>m. RoomMember_user_id m = 3 \<and> \<not> RoomMember_is_banned m) (room_members db_example)) rs'"
    by blast
  from rs'(2) have "rs' = [\<lparr>RoomResponse_id = 1, RoomResponse_name = ''flat'',
        RoomResponse_code = ''AAAAAA'', RoomResponse_created_by = 1,
        RoomResponse_created_at = 0, RoomResponse_member_count = 3\<rparr>]"
    by (simp add: db_example_def member_def list_all2_Cons1 room_A_def)
  with rs'(1) banned wf show ?thesis by simp
qed

section \<open>Joining a room by code\<close>

lemma alphabet_case: "list_all (\<lambda>c. ascii_upper c = c \<and> ascii_upper (char_lower c) = c) alphabet"
  by code_simp

lemma ascii_upper_alphabet: "c \<in> set alphabet \<Longrightarrow> ascii_upper c = c"
  using alphabet_case by (simp add: list_all_iff)

lemma ascii_upper_lower_alphabet: "c \<in> set alphabet \<Longrightarrow> ascii_upper (char_lower c) = c"
  using alphabet_case by (simp add: list_all_iff)

lemma map_ascii_upper_variant:
  "list_all2 (\<lambda>x y. x = y \<or> x = char_lower y) v code \<Longrightarrow>
   list_all (\<lambda>c. c \<in> set alphabet) code \<Longrightarrow> map ascii_upper v = code"
  by (induction v code rule: list_all2_induct)
     (auto simp: ascii_upper_alphabet ascii_upper_lower_alphabet)

lemma alphabet_ascii: "list_all (\<lambda>c. is_ascii c \<and> is_ascii (char_lower c)) alphabet"
  by code_simp

lemma variant_is_ascii:
  "list_all2 (\<lambda>x y. x = y \<or> x = char_lower y) v code \<Longrightarrow>
   list_all (\<lambda>c. c \<in> set alphabet) code \<Longrightarrow> list_all is_ascii v"
proof (induction v code rule: list_all2_induct)
  case Nil
  then show ?case by simp
next
  case (Cons x xs y ys)
  from Cons.prems have "y \<in> set alphabet" by simp
  then have "is_ascii y \<and> is_ascii (char_lower y)"
    using alphabet_ascii by (simp add: list_all_iff)
  with Cons show ?case by auto
qed

lemma upper_case_variant:
  assumes "list_all (\<lambda>c. c \<in> set alphabet) code" "case_variant v code"
  shows "upper nu v = code"
proof -
  have v: "list_all2 (\<lambda>x y. x = y \<or> x = char_lower y) v code"
    using assms(2) by (simp add: case_variant_def)
  have "list_all is_ascii v" using v assms(1) by (rule variant_is_ascii)
  moreover have "map ascii_upper v = code" using v assms(1) by (rule map_ascii_upper_variant)
  ultimately show ?thesis by (simp add: upper_def)
qed



lemma wf_db_codes: "wf_db s \<Longrightarrow> room \<in> set (rooms s) \<Longrightarrow> valid_code (Room_code room)"
  by (simp add: wf_db_def list_all_iff)

lemma wf_db_distinct_codes: "wf_db s \<Longrightarrow> distinct (map Room_code (rooms s))"
  by (simp add: wf_db_def)

lemma find_room_by_code:
  assumes "distinct (map Room_code (rooms s))" "room \<in> set (rooms s)"
  shows "find (\<lambda>r. Room_code r = Room_code room) (rooms s) = Some room"
  using assms by (rule find_key_unique)

lemma join_room_found:
  assumes "distinct (map Room_code (rooms s))" "room \<in> set (rooms s)" "Room_code room = upper nu code"
  shows "join_room nu s code u now =
    (case find (\<lambda>m. RoomMember_room_id m = Room_id room \<and> RoomMember_user_id m = u)
            (room_members s) of
       Some existing \<Rightarrow>
         if RoomMember_is_banned existing
         then Inl (HTTPException 403 ''You are banned from this room'')
         else Inl (HTTPException 400 ''Already a member'')
     | None \<Rightarrow>
         Inr (s\<lparr>room_members := room_members s @
                 [\<lparr>RoomMember_id = next_id (map RoomMember_id (room_members s)),
                   RoomMember_room_id = Room_id room, RoomMember_user_id = u,
                   RoomMember_role = MEMBER, RoomMember_is_banned = False,
                   RoomMember_joined_at = now\<rparr>]\<rparr>,
              room_response room
                (member_count
                   (s\<lparr>room_members := room_members s @
                       [\<lparr>RoomMember_id = next_id (map RoomMember_id (room_members s)),
                         RoomMember_room_id = Room_id room, RoomMember_user_id = u,
                         RoomMember_role = MEMBER, RoomMember_is_banned = False,
                         RoomMember_joined_at = now\<rparr>]\<rparr>)
                   (Room_id room))))"
proof -
  have "find (\<lambda>r. Room_code r = upper nu code) (rooms s) = Some room"
    using find_room_by_code[OF assms(1,2)] assms(3) by simp
  then show ?thesis by (simp add: join_room_def Let_def split: option.split)
qed

lemma ascii_upper_all:
  "list_all (\<lambda>c. ascii_upper c =
      (case map_of (zip ''abcdefghijklmnopqrstuvwxyz'' ''ABCDEFGHIJKLMNOPQRSTUVWXYZ'') c of
         None \<Rightarrow> c | Some C \<Rightarrow> C)) (Enum.enum :: char list)"
  by code_simp

lemma ascii_upper_table:
  "ascii_upper c =
      (case map_of (zip ''abcdefghijklmnopqrstuvwxyz'' ''ABCDEFGHIJKLMNOPQRSTUVWXYZ'') c of
         None \<Rightarrow> c | Some C \<Rightarrow> C)"
proof -
  have "c \<in> set (Enum.enum :: char list)" by (simp add: enum_UNIV)
  with ascii_upper_all show ?thesis unfolding list_all_iff by blast
qed

lemma upper_ascii:
  "(\<forall>c \<in> set code. (of_char c :: nat) < 128) \<Longrightarrow>
   upper nu code = map (\<lambda>c. case map_of (zip ''abcdefghijklmnopqrstuvwxyz''
                                         ''ABCDEFGHIJKLMNOPQRSTUVWXYZ'') c of
                          None \<Rightarrow> c | Some C \<Rightarrow> C) code"
proof -
  assume "\<forall>c \<in> set code. (of_char c :: nat) < 128"
  then have "list_all is_ascii code" by (simp add: list_all_iff is_ascii_def)
  then have "upper nu code = map ascii_upper code" by (simp add: upper_def)
  also have "\<dots> = map (\<lambda>c. case map_of (zip ''abcdefghijklmnopqrstuvwxyz''
                                         ''ABCDEFGHIJKLMNOPQRSTUVWXYZ'') c of
                          None \<Rightarrow> c | Some C \<Rightarrow> C) code"
    by (rule map_cong[OF refl]) (rule ascii_upper_table)
  finally show ?thesis .
qed

lemma upper_non_ascii:
  assumes "\<not> (\<forall>c \<in> set code. (of_char c :: nat) < 128)"
  shows "upper nu code = nu code"
proof -
  have "list_all is_ascii code \<longleftrightarrow> (\<forall>c \<in> set code. (of_char c :: nat) < 128)"
    by (simp add: list_all_iff is_ascii_def)
  with assms have "\<not> list_all is_ascii code" by blast
  then show ?thesis by (simp add: upper_def)
qed

text \<open>
  C3. Joining by code in a well-formed database, for every code sent and whatever Python's
  case mapping \<open>nu\<close> does outside ASCII. The code is looked up in upper case: ASCII text
  has its letters a to z replaced by A to Z and nothing else changed, other text is
  mapped by \<open>nu\<close>; so every case variant of a stored code names its room. The join
  fails with 404 (room not found) when no room has the normalised code; for the room that
  has it, the join fails with 403 (banned) when the user has a banned membership there,
  with 400 (already a member) when the user has a membership that is not banned, and
  otherwise appends a membership with role MEMBER, not banned, changes nothing else and
  answers with the room and the number of its memberships that are not banned.
\<close>

theorem C3_join_room:
  assumes "wf_db s"
  shows "((\<forall>c \<in> set code. (of_char c :: nat) < 128) \<longrightarrow>
            upper nu code = map (\<lambda>c. case map_of (zip ''abcdefghijklmnopqrstuvwxyz''
                                                  ''ABCDEFGHIJKLMNOPQRSTUVWXYZ'') c of
                                   None \<Rightarrow> c | Some C \<Rightarrow> C) code)
     \<and> (\<not> (\<forall>c \<in> set code. (of_char c :: nat) < 128) \<longrightarrow> upper nu code = nu code)
     \<and> (\<forall>room \<in> set (rooms s). \<forall>v. case_variant v (Room_code room) \<longrightarrow> upper nu v = Room_code room)
     \<and> ((\<forall>room \<in> set (rooms s). Room_code room \<noteq> upper nu code)
          \<longrightarrow> join_room nu s code u now = Inl (HTTPException 404 ''Room not found''))
     \<and> (\<forall>room \<in> set (rooms s). Room_code room = upper nu code \<longrightarrow>
          ((\<exists>m \<in> set (room_members s). RoomMember_room_id m = Room_id room
               \<and> RoomMember_user_id m = u \<and> RoomMember_is_banned m)
             \<longrightarrow> join_room nu s code u now = Inl (HTTPException 403 ''You are banned from this room''))
        \<and> ((\<exists>m \<in> set (room_members s). RoomMember_room_id m = Room_id room
               \<and> RoomMember_user_id m = u \<and> \<not> RoomMember_is_banned m)
             \<longrightarrow> join_room nu s code u now = Inl (HTTPException 400 ''Already a member''))
        \<and> ((\<forall>m \<in> set (room_members s). \<not> (RoomMember_room_id m = Room_id room
               \<and> RoomMember_user_id m = u))
             \<longrightarrow> (\<exists>s' resp. join_room nu s code u now = Inr (s', resp)
                  \<and> s' = s\<lparr>room_members := room_members s @
                       [\<lparr>RoomMember_id = next_id (map RoomMember_id (room_members s)),
                         RoomMember_room_id = Room_id room, RoomMember_user_id = u,
                         RoomMember_role = MEMBER, RoomMember_is_banned = False,
                         RoomMember_joined_at = now\<rparr>]\<rparr>
                  \<and> resp = \<lparr>RoomResponse_id = Room_id room, RoomResponse_name = Room_name room,
                         RoomResponse_code = Room_code room,
                         RoomResponse_created_by = Room_created_by room,
                         RoomResponse_created_at = Room_created_at room,
                         RoomResponse_member_count =
                           int (length (filter (\<lambda>m. RoomMember_room_id m = Room_id room
                                  \<and> \<not> RoomMember_is_banned m) (room_members s')))\<rparr>)))"
proof -
  have 1: "upper nu v = Room_code room"
    if "room \<in> set (rooms s)" "case_variant v (Room_code room)" for room v
    using wf_db_codes[OF assms that(1)] that(2) by (simp add: valid_code_def upper_case_variant)
  have 2: "join_room nu s code u now = Inl (HTTPException 404 ''Room not found'')"
    if "\<forall>room \<in> set (rooms s). Room_code room \<noteq> upper nu code"
  proof -
    from that have "find (\<lambda>r. Room_code r = upper nu code) (rooms s) = None"
      by (simp add: find_None_iff)
    then show ?thesis by (simp add: join_room_def)
  qed
  have 3: "join_room nu s code u now = Inl (HTTPException 403 ''You are banned from this room'')"
    if room: "room \<in> set (rooms s)" "Room_code room = upper nu code"
      and ex: "\<exists>m \<in> set (room_members s). RoomMember_room_id m = Room_id room
               \<and> RoomMember_user_id m = u \<and> RoomMember_is_banned m" for room
  proof -
    from ex obtain m where m: "m \<in> set (room_members s)" "RoomMember_room_id m = Room_id room"
      "RoomMember_user_id m = u" "RoomMember_is_banned m" by blast
    have "find (\<lambda>m. RoomMember_room_id m = Room_id room \<and> RoomMember_user_id m = u)
            (room_members s) = Some m"
      using find_membership_unique[OF wf_db_unique[OF assms] m(1,2,3)] .
    then show ?thesis using m(4) by (simp add: join_room_found[OF wf_db_distinct_codes[OF assms] room])
  qed
  have 4: "join_room nu s code u now = Inl (HTTPException 400 ''Already a member'')"
    if room: "room \<in> set (rooms s)" "Room_code room = upper nu code"
      and ex: "\<exists>m \<in> set (room_members s). RoomMember_room_id m = Room_id room
               \<and> RoomMember_user_id m = u \<and> \<not> RoomMember_is_banned m" for room
  proof -
    from ex obtain m where m: "m \<in> set (room_members s)" "RoomMember_room_id m = Room_id room"
      "RoomMember_user_id m = u" "\<not> RoomMember_is_banned m" by blast
    have "find (\<lambda>m. RoomMember_room_id m = Room_id room \<and> RoomMember_user_id m = u)
            (room_members s) = Some m"
      using find_membership_unique[OF wf_db_unique[OF assms] m(1,2,3)] .
    then show ?thesis using m(4) by (simp add: join_room_found[OF wf_db_distinct_codes[OF assms] room])
  qed
  have 5: "\<exists>s' resp. join_room nu s code u now = Inr (s', resp)
                  \<and> s' = s\<lparr>room_members := room_members s @
                       [\<lparr>RoomMember_id = next_id (map RoomMember_id (room_members s)),
                         RoomMember_room_id = Room_id room, RoomMember_user_id = u,
                         RoomMember_role = MEMBER, RoomMember_is_banned = False,
                         RoomMember_joined_at = now\<rparr>]\<rparr>
                  \<and> resp = \<lparr>RoomResponse_id = Room_id room, RoomResponse_name = Room_name room,
                         RoomResponse_code = Room_code room,
                         RoomResponse_created_by = Room_created_by room,
                         RoomResponse_created_at = Room_created_at room,
                         RoomResponse_member_count =
                           int (length (filter (\<lambda>m. RoomMember_room_id m = Room_id room
                                  \<and> \<not> RoomMember_is_banned m) (room_members s')))\<rparr>"
    if room: "room \<in> set (rooms s)" "Room_code room = upper nu code"
      and no: "\<forall>m \<in> set (room_members s). \<not> (RoomMember_room_id m = Room_id room
               \<and> RoomMember_user_id m = u)" for room
  proof -
    from no have "find (\<lambda>m. RoomMember_room_id m = Room_id room \<and> RoomMember_user_id m = u)
            (room_members s) = None"
      by (simp add: find_None_iff)
    then show ?thesis
      by (simp add: join_room_found[OF wf_db_distinct_codes[OF assms] room] room_response_def
            member_count_def)
  qed
  have rest: "(\<forall>room \<in> set (rooms s). \<forall>v. case_variant v (Room_code room) \<longrightarrow> upper nu v = Room_code room)
     \<and> ((\<forall>room \<in> set (rooms s). Room_code room \<noteq> upper nu code)
          \<longrightarrow> join_room nu s code u now = Inl (HTTPException 404 ''Room not found''))
     \<and> (\<forall>room \<in> set (rooms s). Room_code room = upper nu code \<longrightarrow>
          ((\<exists>m \<in> set (room_members s). RoomMember_room_id m = Room_id room
               \<and> RoomMember_user_id m = u \<and> RoomMember_is_banned m)
             \<longrightarrow> join_room nu s code u now = Inl (HTTPException 403 ''You are banned from this room''))
        \<and> ((\<exists>m \<in> set (room_members s). RoomMember_room_id m = Room_id room
               \<and> RoomMember_user_id m = u \<and> \<not> RoomMember_is_banned m)
             \<longrightarrow> join_room nu s code u now = Inl (HTTPException 400 ''Already a member''))
        \<and> ((\<forall>m \<in> set (room_members s). \<not> (RoomMember_room_id m = Room_id room
               \<and> RoomMember_user_id m = u))
             \<longrightarrow> (\<exists>s' resp. join_room nu s code u now = Inr (s', resp)
                  \<and> s' = s\<lparr>room_members := room_members s @
                       [\<lparr>RoomMember_id = next_id (map RoomMember_id (room_members s)),
                         RoomMember_room_id = Room_id room, RoomMember_user_id = u,
                         RoomMember_role = MEMBER, RoomMember_is_banned = False,
                         RoomMember_joined_at = now\<rparr>]\<rparr>
                  \<and> resp = \<lparr>RoomResponse_id = Room_id room, RoomResponse_name = Room_name room,
                         RoomResponse_code = Room_code room,
                         RoomResponse_created_by = Room_created_by room,
                         RoomResponse_created_at = Room_created_at room,
                         RoomResponse_member_count =
                           int (length (filter (\<lambda>m. RoomMember_room_id m = Room_id room
                                  \<and> \<not> RoomMember_is_banned m) (room_members s')))\<rparr>)))"
    using 1 2 3 4 5 by blast
  show ?thesis
    by (intro conjI impI upper_ascii upper_non_ascii rest[THEN conjunct1]
          rest[THEN conjunct2, THEN conjunct1] rest[THEN conjunct2, THEN conjunct2])
       assumption+
qed


lemma upper_examples:
  "upper id ''aaaaaa'' = ''AAAAAA''" "upper id ''aAaAaA'' = ''AAAAAA''" "upper id ''zzzzzz'' = ''ZZZZZZ''"
  by code_simp+

lemma room_A_example: "room_A \<in> set (rooms db_example)"
  by (simp add: db_example_def)

theorem C3_join_room_witness:
  "wf_db db_example
   \<and> join_room id db_example ''zzzzzz'' 5 7 = Inl (HTTPException 404 ''Room not found'')
   \<and> join_room id db_example ''aaaaaa'' 2 7 = Inl (HTTPException 403 ''You are banned from this room'')
   \<and> join_room id db_example ''aaaaaa'' 3 7 = Inl (HTTPException 400 ''Already a member'')
   \<and> map_sum id (\<lambda>p. (room_members (fst p), RoomResponse_member_count (snd p)))
         (join_room id db_example ''aAaAaA'' 5 7)
       = Inr (room_members db_example @
               [\<lparr>RoomMember_id = 5, RoomMember_room_id = 1, RoomMember_user_id = 5,
                 RoomMember_role = MEMBER, RoomMember_is_banned = False,
                 RoomMember_joined_at = 7\<rparr>], 4)"
proof -
  note wf = wf_db_example
  have code: "Room_code room_A = ''AAAAAA''" "Room_id room_A = 1" by (simp_all add: room_A_def)
  have none: "\<forall>room \<in> set (rooms db_example). Room_code room \<noteq> upper id ''zzzzzz''"
    by (simp add: db_example_def upper_examples code)
  have 1: "join_room id db_example ''zzzzzz'' 5 7 = Inl (HTTPException 404 ''Room not found'')"
    by (rule C3_join_room[OF wf, where nu = id and now = 7 and code = "''zzzzzz''" and u = 5,
        THEN conjunct2, THEN conjunct2, THEN conjunct2, THEN conjunct1, THEN mp, OF none])
  have cr: "Room_code room_A = upper id ''aaaaaa''" "Room_code room_A = upper id ''aAaAaA''"
    by (simp_all add: upper_examples code)
  have banned: "\<exists>m \<in> set (room_members db_example). RoomMember_room_id m = Room_id room_A
               \<and> RoomMember_user_id m = 2 \<and> RoomMember_is_banned m"
    by (simp add: db_example_def member_def code)
  note R2 = C3_join_room[OF wf, where nu = id and now = 7 and code = "''aaaaaa''" and u = 2,
        THEN conjunct2, THEN conjunct2, THEN conjunct2, THEN conjunct2]
  have 2: "join_room id db_example ''aaaaaa'' 2 7 = Inl (HTTPException 403 ''You are banned from this room'')"
    by (rule bspec[OF R2 room_A_example, THEN mp, OF cr(1), THEN conjunct1, THEN mp, OF banned])
  have already: "\<exists>m \<in> set (room_members db_example). RoomMember_room_id m = Room_id room_A
               \<and> RoomMember_user_id m = 3 \<and> \<not> RoomMember_is_banned m"
    by (simp add: db_example_def member_def code)
  note R3 = C3_join_room[OF wf, where nu = id and now = 7 and code = "''aaaaaa''" and u = 3,
        THEN conjunct2, THEN conjunct2, THEN conjunct2, THEN conjunct2]
  have 3: "join_room id db_example ''aaaaaa'' 3 7 = Inl (HTTPException 400 ''Already a member'')"
    by (rule bspec[OF R3 room_A_example, THEN mp, OF cr(1), THEN conjunct2, THEN conjunct1,
        THEN mp, OF already])
  have fresh: "\<forall>m \<in> set (room_members db_example). \<not> (RoomMember_room_id m = Room_id room_A
               \<and> RoomMember_user_id m = 5)"
    by (simp add: db_example_def member_def code)
  note R4 = C3_join_room[OF wf, where nu = id and now = 7 and code = "''aAaAaA''" and u = 5,
        THEN conjunct2, THEN conjunct2, THEN conjunct2, THEN conjunct2]
  note E = bspec[OF R4 room_A_example, THEN mp, OF cr(2), THEN conjunct2, THEN conjunct2,
        THEN mp, OF fresh]
  from E obtain s' resp where j: "join_room id db_example ''aAaAaA'' 5 7 = Inr (s', resp)"
    and s': "s' = db_example\<lparr>room_members := room_members db_example @
                       [\<lparr>RoomMember_id = next_id (map RoomMember_id (room_members db_example)),
                         RoomMember_room_id = Room_id room_A, RoomMember_user_id = 5,
                         RoomMember_role = MEMBER, RoomMember_is_banned = False,
                         RoomMember_joined_at = 7\<rparr>]\<rparr>"
    and resp: "resp = \<lparr>RoomResponse_id = Room_id room_A, RoomResponse_name = Room_name room_A,
                         RoomResponse_code = Room_code room_A,
                         RoomResponse_created_by = Room_created_by room_A,
                         RoomResponse_created_at = Room_created_at room_A,
                         RoomResponse_member_count =
                           int (length (filter (\<lambda>m. RoomMember_room_id m = Room_id room_A
                                  \<and> \<not> RoomMember_is_banned m) (room_members s')))\<rparr>"
    by (elim exE conjE)
  have n: "next_id (map RoomMember_id (room_members db_example)) = 5"
    by (simp add: next_id_def db_example_def member_def)
  have members: "room_members s' = room_members db_example @
               [\<lparr>RoomMember_id = 5, RoomMember_room_id = 1, RoomMember_user_id = 5,
                 RoomMember_role = MEMBER, RoomMember_is_banned = False,
                 RoomMember_joined_at = 7\<rparr>]"
    by (simp add: s' n code)
  have "RoomResponse_member_count resp
      = int (length (filter (\<lambda>m. RoomMember_room_id m = Room_id room_A
                                  \<and> \<not> RoomMember_is_banned m) (room_members s')))"
    by (simp add: resp)
  also have "\<dots> = 4"
    unfolding members by (simp add: db_example_def member_def code)
  finally have count: "RoomResponse_member_count resp = 4" .
  have 4: "map_sum id (\<lambda>p. (room_members (fst p), RoomResponse_member_count (snd p)))
         (join_room id db_example ''aAaAaA'' 5 7)
       = Inr (room_members db_example @
               [\<lparr>RoomMember_id = 5, RoomMember_room_id = 1, RoomMember_user_id = 5,
                 RoomMember_role = MEMBER, RoomMember_is_banned = False,
                 RoomMember_joined_at = 7\<rparr>], 4)"
    by (simp add: j members count)
  from wf 1 2 3 4 show ?thesis by (intro conjI)
qed

section \<open>Well-formedness is an invariant\<close>

lemma fold_max_ge: "(a :: int) \<le> fold max ids a"
proof (induction ids arbitrary: a)
  case Nil
  then show ?case by simp
next
  case (Cons x xs)
  have "a \<le> max x a" by simp
  also have "\<dots> \<le> fold max xs (max x a)" by (rule Cons.IH)
  finally show ?case by simp
qed

lemma fold_max_member: "(x :: int) \<in> set ids \<Longrightarrow> x \<le> fold max ids a"
proof (induction ids arbitrary: a)
  case Nil
  then show ?case by simp
next
  case (Cons y ys)
  show ?case
  proof (cases "x = y")
    case True
    have "x \<le> max y a" using True by simp
    also have "\<dots> \<le> fold max ys (max y a)" by (rule fold_max_ge)
    finally show ?thesis by simp
  next
    case False
    with Cons.prems have "x \<in> set ys" by simp
    then show ?thesis using Cons.IH by simp
  qed
qed

lemma next_id_fresh: "next_id ids \<notin> set ids"
proof
  assume "next_id ids \<in> set ids"
  then have "next_id ids \<le> fold max ids 0" by (rule fold_max_member)
  then show False by (simp add: next_id_def)
qed

lemma find_Some_split:
  "find P xs = Some m \<Longrightarrow> \<exists>ys zs. xs = ys @ m # zs \<and> P m \<and> (\<forall>x \<in> set ys. \<not> P x)"
proof (induction xs)
  case Nil
  then show ?case by simp
next
  case (Cons x xs)
  show ?case
  proof (cases "P x")
    case True
    with Cons.prems have "x = m" by simp
    with True have "x # xs = [] @ m # xs \<and> P m \<and> (\<forall>x \<in> set []. \<not> P x)" by simp
    then show ?thesis by blast
  next
    case False
    with Cons.prems have "find P xs = Some m" by simp
    from Cons.IH[OF this] obtain ys zs where "xs = ys @ m # zs" "P m" "\<forall>x \<in> set ys. \<not> P x"
      by blast
    with False have "x # xs = (x # ys) @ m # zs \<and> P m \<and> (\<forall>x \<in> set (x # ys). \<not> P x)"
      by simp
    then show ?thesis by blast
  qed
qed

lemma update_first_split:
  "(\<forall>x \<in> set ys. \<not> P x) \<Longrightarrow> P m \<Longrightarrow> update_first P f (ys @ m # zs) = ys @ f m # zs"
  by (induction ys) simp_all

lemma remove1_split:
  "(\<forall>x \<in> set ys. \<not> P x) \<Longrightarrow> P m \<Longrightarrow> remove1 m (ys @ m # zs) = ys @ zs"
proof -
  assume "\<forall>x \<in> set ys. \<not> P x" "P m"
  then have "m \<notin> set ys" by blast
  then show ?thesis by (simp add: remove1_append)
qed

lemma wf_db_same_tables:
  "rooms s' = rooms s \<Longrightarrow> room_members s' = room_members s \<Longrightarrow> wf_db s' = wf_db s"
  by (simp add: wf_db_def unique_memberships_def owners_def)

lemma wf_db_drop_member:
  assumes "wf_db s" "room_members s = ys @ m # zs" "RoomMember_role m \<noteq> OWNER"
  shows "wf_db (s\<lparr>room_members := ys @ zs\<rparr>)"
  using assms by (auto simp: wf_db_def unique_memberships_def owners_def list_all_iff)

lemma wf_db_set_banned:
  assumes "wf_db s" "room_members s = ys @ m # zs"
  shows "wf_db (s\<lparr>room_members := ys @ m\<lparr>RoomMember_is_banned := b\<rparr> # zs\<rparr>)"
  using assms by (auto simp: wf_db_def unique_memberships_def owners_def list_all_iff)

lemma wf_db_add_member:
  assumes "wf_db s" "room \<in> set (rooms s)"
    "\<forall>m \<in> set (room_members s). \<not> (RoomMember_room_id m = Room_id room \<and> RoomMember_user_id m = u)"
  shows "wf_db (s\<lparr>room_members := room_members s @
      [\<lparr>RoomMember_id = i, RoomMember_room_id = Room_id room, RoomMember_user_id = u,
        RoomMember_role = MEMBER, RoomMember_is_banned = False, RoomMember_joined_at = now\<rparr>]\<rparr>)"
  using assms by (auto simp: wf_db_def unique_memberships_def owners_def list_all_iff)


lemma wf_db_new_room:
  assumes "wf_db s" "generate_room_code s rng 6 = Some code"
  shows "wf_db (s\<lparr>rooms := rooms s @
        [\<lparr>Room_id = next_id (map Room_id (rooms s)), Room_name = name, Room_code = code,
          Room_created_by = u, Room_created_at = now\<rparr>],
      room_members := room_members s @
        [\<lparr>RoomMember_id = i, RoomMember_room_id = next_id (map Room_id (rooms s)),
          RoomMember_user_id = u, RoomMember_role = OWNER, RoomMember_is_banned = False,
          RoomMember_joined_at = now\<rparr>]\<rparr>)"
proof -
  have code: "length code = 6 \<and> set code \<subseteq> set alphabet \<and> code \<notin> Room_code ` set (rooms s)"
    using assms(2) unfolding generate_room_code_def by (rule generate_from_Some)
  then have valid: "valid_code code" by (auto simp: valid_code_def list_all_iff)
  have fresh: "next_id (map Room_id (rooms s)) \<notin> Room_id ` set (rooms s)"
    using next_id_fresh[of "map Room_id (rooms s)"] by simp
  have refs: "\<forall>m \<in> set (room_members s). RoomMember_room_id m \<in> Room_id ` set (rooms s)"
    using assms(1) by (simp add: wf_db_def list_all_iff)
  then have no_member: "\<forall>m \<in> set (room_members s).
      RoomMember_room_id m \<noteq> next_id (map Room_id (rooms s))"
    using fresh by metis
  have w1: "distinct (map Room_id (rooms s))" and w2: "distinct (map Room_code (rooms s))"
    and w3: "\<forall>r \<in> set (rooms s). valid_code (Room_code r)"
    and w5: "distinct (map (\<lambda>m. (RoomMember_room_id m, RoomMember_user_id m)) (room_members s))"
    and w6: "\<forall>r \<in> set (rooms s). length (owners s (Room_id r)) = 1"
    using assms(1) by (simp_all add: wf_db_def unique_memberships_def list_all_iff)
  have none_new: "filter (\<lambda>m. RoomMember_room_id m = next_id (map Room_id (rooms s))
      \<and> RoomMember_role m = OWNER) (room_members s) = []"
    using no_member by (simp add: filter_empty_conv)
  have old: "r \<in> set (rooms s) \<Longrightarrow> Room_id r \<noteq> next_id (map Room_id (rooms s))" for r
    using fresh by (metis imageI)
  show ?thesis
    unfolding wf_db_def unique_memberships_def owners_def list_all_iff
    using w1 w2 w3 w5 w6 fresh code valid refs no_member none_new old
    by (auto simp: owners_def image_iff)
qed

lemma wf_db_after_create_room:
  assumes "wf_db s"
  shows "wf_db (after nu s (CreateRoom rng name u now))"
proof (cases "generate_room_code s rng 6")
  case None
  then show ?thesis using assms by (simp add: create_room_def create_room_add_room_def)
next
  case (Some code)
  from wf_db_new_room[OF assms this] show ?thesis
    using Some
    by (simp add: create_room_def create_room_add_room_def create_room_add_membership_def Let_def)
qed


lemma wf_db_after_join_room:
  assumes "wf_db s"
  shows "wf_db (after nu s (JoinRoom code u now))"
proof (cases "find (\<lambda>r. Room_code r = upper nu code) (rooms s)")
  case None
  then show ?thesis using assms by (simp add: join_room_def committed_def)
next
  case (Some room)
  then have room: "room \<in> set (rooms s)" by (auto simp: find_Some_iff)
  show ?thesis
  proof (cases "find (\<lambda>m. RoomMember_room_id m = Room_id room \<and> RoomMember_user_id m = u)
      (room_members s)")
    case None
    then have "\<forall>m \<in> set (room_members s).
        \<not> (RoomMember_room_id m = Room_id room \<and> RoomMember_user_id m = u)"
      by (simp add: find_None_iff)
    from wf_db_add_member[OF assms room this] show ?thesis
      using Some None by (simp add: join_room_def committed_def Let_def)
  next
    case (Some existing)
    then show ?thesis
      using assms \<open>find (\<lambda>r. Room_code r = upper nu code) (rooms s) = Some room\<close>
      by (simp add: join_room_def committed_def)
  qed
qed

lemma wf_db_delete:
  assumes "wf_db s" "room \<in> set (rooms s)"
  shows "wf_db (s\<lparr>rooms := remove1 room (rooms s),
      room_members := filter (\<lambda>m. RoomMember_room_id m \<noteq> Room_id room) (room_members s),
      tasks := ts, messages := ms\<rparr>)"
proof -
  have w1: "distinct (map Room_id (rooms s))" and w2: "distinct (map Room_code (rooms s))"
    and w3: "\<forall>r \<in> set (rooms s). valid_code (Room_code r)"
    and w4: "\<forall>m \<in> set (room_members s). RoomMember_room_id m \<in> Room_id ` set (rooms s)"
    and w5: "distinct (map (\<lambda>m. (RoomMember_room_id m, RoomMember_user_id m)) (room_members s))"
    and w6: "\<forall>r \<in> set (rooms s). length (owners s (Room_id r)) = 1"
    using assms(1) by (simp_all add: wf_db_def unique_memberships_def list_all_iff)
  from assms(2) obtain ys zs where split: "rooms s = ys @ room # zs"
    by (meson split_list)
  have dist: "distinct (ys @ room # zs)" using w1 split by (metis distinct_map)
  then have rem: "remove1 room (rooms s) = ys @ zs"
    by (simp add: split remove1_append)
  have other: "r \<in> set (ys @ zs) \<Longrightarrow> Room_id r \<noteq> Room_id room" for r
    using w1 unfolding split by (auto simp: image_iff)
  have v1: "distinct (map Room_id (ys @ zs))" using w1 unfolding split by simp
  have v2: "distinct (map Room_code (ys @ zs))" using w2 unfolding split by simp
  have v3: "\<forall>r \<in> set (ys @ zs). valid_code (Room_code r)" using w3 unfolding split by simp
  have v4: "\<forall>m \<in> set (filter (\<lambda>m. RoomMember_room_id m \<noteq> Room_id room) (room_members s)).
      RoomMember_room_id m \<in> Room_id ` set (ys @ zs)"
    using w4 unfolding split by auto
  have v5: "distinct (map (\<lambda>m. (RoomMember_room_id m, RoomMember_user_id m))
      (filter (\<lambda>m. RoomMember_room_id m \<noteq> Room_id room) (room_members s)))"
    using w5 by (rule distinct_map_filter)
  have v6: "\<forall>r \<in> set (ys @ zs).
      length (filter (\<lambda>m. RoomMember_room_id m = Room_id r \<and> RoomMember_role m = OWNER)
        (filter (\<lambda>m. RoomMember_room_id m \<noteq> Room_id room) (room_members s))) = 1"
  proof
    fix r assume r: "r \<in> set (ys @ zs)"
    then have "r \<in> set (rooms s)" unfolding split by auto
    with w6 have "length (owners s (Room_id r)) = 1" by blast
    moreover have "filter (\<lambda>m. RoomMember_room_id m = Room_id r \<and> RoomMember_role m = OWNER)
        (filter (\<lambda>m. RoomMember_room_id m \<noteq> Room_id room) (room_members s))
      = owners s (Room_id r)"
      unfolding owners_def filter_filter using other[OF r] by (intro filter_cong) auto
    ultimately show "length (filter (\<lambda>m. RoomMember_room_id m = Room_id r \<and> RoomMember_role m = OWNER)
        (filter (\<lambda>m. RoomMember_room_id m \<noteq> Room_id room) (room_members s))) = 1"
      by simp
  qed
  show ?thesis
    unfolding wf_db_def unique_memberships_def owners_def list_all_iff
    using v1 v2 v3 v4 v5 v6 by (simp add: rem image_Un)
qed

lemma wf_db_after_delete_room:
  assumes "wf_db s"
  shows "wf_db (after nu s (DeleteRoom rid u))"
proof (cases "delete_room s rid u")
  case (Inl e)
  then show ?thesis using assms by (simp add: committed_def)
next
  case (Inr s')
  then obtain room where room: "find (\<lambda>r. Room_id r = rid) (rooms s) = Some room"
    and s': "s' = s\<lparr>rooms := remove1 room (rooms s),
      room_members := filter (\<lambda>m. RoomMember_room_id m \<noteq> Room_id room) (room_members s),
      tasks := filter (\<lambda>t. Task_room_id t \<noteq> Room_id room) (tasks s),
      messages := filter (\<lambda>m. Message_room_id m \<noteq> Room_id room) (messages s)\<rparr>"
    by (auto simp: delete_room_def split: sum.splits option.splits)
  from room have "room \<in> set (rooms s)" by (auto simp: find_Some_iff)
  from wf_db_delete[OF assms this] show ?thesis using Inr s' by (simp add: committed_def)
qed

lemma leave_room_Inr:
  assumes "leave_room s rid u = Inr s'"
  shows "\<exists>ys m zs. room_members s = ys @ m # zs
     \<and> RoomMember_room_id m = rid \<and> RoomMember_user_id m = u
     \<and> (\<forall>x \<in> set ys. \<not> (RoomMember_room_id x = rid \<and> RoomMember_user_id x = u))
     \<and> RoomMember_role m \<noteq> OWNER \<and> s' = s\<lparr>room_members := ys @ zs\<rparr>"
proof -
  from assms obtain m where m: "find (\<lambda>m. RoomMember_room_id m = rid \<and> RoomMember_user_id m = u)
        (room_members s) = Some m" "RoomMember_role m \<noteq> OWNER"
    and s': "s' = s\<lparr>room_members := remove1 m (room_members s)\<rparr>"
    by (auto simp: leave_room_def split: option.splits if_splits)
  from find_Some_split[OF m(1)] obtain ys zs where split: "room_members s = ys @ m # zs"
    "RoomMember_room_id m = rid \<and> RoomMember_user_id m = u"
    "\<forall>x \<in> set ys. \<not> (RoomMember_room_id x = rid \<and> RoomMember_user_id x = u)"
    by blast
  have "remove1 m (room_members s) = ys @ zs"
    unfolding split(1) using split(3,2) by (rule remove1_split)
  with s' split m(2) show ?thesis by auto
qed

lemma kick_user_Inr:
  assumes "kick_user s rid t u = Inr s'"
  shows "\<exists>ys m zs. room_members s = ys @ m # zs
     \<and> RoomMember_room_id m = rid \<and> RoomMember_user_id m = t
     \<and> (\<forall>x \<in> set ys. \<not> (RoomMember_room_id x = rid \<and> RoomMember_user_id x = t))
     \<and> RoomMember_role m \<noteq> OWNER \<and> s' = s\<lparr>room_members := ys @ zs\<rparr>"
proof -
  from assms obtain m where m: "find (\<lambda>m. RoomMember_room_id m = rid \<and> RoomMember_user_id m = t)
        (room_members s) = Some m" "RoomMember_role m \<noteq> OWNER"
    and s': "s' = s\<lparr>room_members := remove1 m (room_members s)\<rparr>"
    by (auto simp: kick_user_def split: sum.splits option.splits if_splits)
  from find_Some_split[OF m(1)] obtain ys zs where split: "room_members s = ys @ m # zs"
    "RoomMember_room_id m = rid \<and> RoomMember_user_id m = t"
    "\<forall>x \<in> set ys. \<not> (RoomMember_room_id x = rid \<and> RoomMember_user_id x = t)"
    by blast
  have "remove1 m (room_members s) = ys @ zs"
    unfolding split(1) using split(3,2) by (rule remove1_split)
  with s' split m(2) show ?thesis by auto
qed

lemma ban_user_Inr:
  assumes "ban_user s rid t u = Inr s'"
  shows "\<exists>ys m zs. room_members s = ys @ m # zs
     \<and> RoomMember_room_id m = rid \<and> RoomMember_user_id m = t
     \<and> (\<forall>x \<in> set ys. \<not> (RoomMember_room_id x = rid \<and> RoomMember_user_id x = t))
     \<and> RoomMember_role m \<noteq> OWNER
     \<and> s' = s\<lparr>room_members := ys @ m\<lparr>RoomMember_is_banned := True\<rparr> # zs\<rparr>"
proof -
  from assms obtain m where m: "find (\<lambda>m. RoomMember_room_id m = rid \<and> RoomMember_user_id m = t)
        (room_members s) = Some m" "RoomMember_role m \<noteq> OWNER"
    and s': "s' = s\<lparr>room_members := update_first
        (\<lambda>m. RoomMember_room_id m = rid \<and> RoomMember_user_id m = t)
        (\<lambda>m. m\<lparr>RoomMember_is_banned := True\<rparr>) (room_members s)\<rparr>"
    by (auto simp: ban_user_def split: sum.splits option.splits if_splits)
  from find_Some_split[OF m(1)] obtain ys zs where split: "room_members s = ys @ m # zs"
    "RoomMember_room_id m = rid \<and> RoomMember_user_id m = t"
    "\<forall>x \<in> set ys. \<not> (RoomMember_room_id x = rid \<and> RoomMember_user_id x = t)"
    by blast
  have "update_first (\<lambda>m. RoomMember_room_id m = rid \<and> RoomMember_user_id m = t)
        (\<lambda>m. m\<lparr>RoomMember_is_banned := True\<rparr>) (room_members s)
      = ys @ m\<lparr>RoomMember_is_banned := True\<rparr> # zs"
    unfolding split(1) using split(3,2) by (rule update_first_split)
  with s' split m(2) show ?thesis by auto
qed

lemma unban_user_Inr:
  assumes "unban_user s rid t u = Inr s'"
  shows "\<exists>ys m zs. room_members s = ys @ m # zs
     \<and> RoomMember_room_id m = rid \<and> RoomMember_user_id m = t
     \<and> (\<forall>x \<in> set ys. \<not> (RoomMember_room_id x = rid \<and> RoomMember_user_id x = t))
     \<and> s' = s\<lparr>room_members := ys @ m\<lparr>RoomMember_is_banned := False\<rparr> # zs\<rparr>"
proof -
  from assms obtain m where m: "find (\<lambda>m. RoomMember_room_id m = rid \<and> RoomMember_user_id m = t)
        (room_members s) = Some m"
    and s': "s' = s\<lparr>room_members := update_first
        (\<lambda>m. RoomMember_room_id m = rid \<and> RoomMember_user_id m = t)
        (\<lambda>m. m\<lparr>RoomMember_is_banned := False\<rparr>) (room_members s)\<rparr>"
    by (auto simp: unban_user_def split: sum.splits option.splits if_splits)
  from find_Some_split[OF m(1)] obtain ys zs where split: "room_members s = ys @ m # zs"
    "RoomMember_room_id m = rid \<and> RoomMember_user_id m = t"
    "\<forall>x \<in> set ys. \<not> (RoomMember_room_id x = rid \<and> RoomMember_user_id x = t)"
    by blast
  have "update_first (\<lambda>m. RoomMember_room_id m = rid \<and> RoomMember_user_id m = t)
        (\<lambda>m. m\<lparr>RoomMember_is_banned := False\<rparr>) (room_members s)
      = ys @ m\<lparr>RoomMember_is_banned := False\<rparr> # zs"
    unfolding split(1) using split(3,2) by (rule update_first_split)
  with s' split show ?thesis by auto
qed

lemma wf_db_after_leave_room:
  assumes "wf_db s"
  shows "wf_db (after nu s (LeaveRoom rid u))"
proof (cases "leave_room s rid u")
  case (Inl e)
  then show ?thesis using assms by (simp add: committed_def)
next
  case (Inr s')
  from leave_room_Inr[OF this] wf_db_drop_member[OF assms] have "wf_db s'" by blast
  then show ?thesis using Inr by (simp add: committed_def)
qed

lemma wf_db_after_kick_user:
  assumes "wf_db s"
  shows "wf_db (after nu s (KickUser rid t u))"
proof (cases "kick_user s rid t u")
  case (Inl e)
  then show ?thesis using assms by (simp add: committed_def)
next
  case (Inr s')
  from kick_user_Inr[OF this] wf_db_drop_member[OF assms] have "wf_db s'" by blast
  then show ?thesis using Inr by (simp add: committed_def)
qed

lemma wf_db_after_ban_user:
  assumes "wf_db s"
  shows "wf_db (after nu s (BanUser rid t u))"
proof (cases "ban_user s rid t u")
  case (Inl e)
  then show ?thesis using assms by (simp add: committed_def)
next
  case (Inr s')
  from ban_user_Inr[OF this] wf_db_set_banned[OF assms] have "wf_db s'" by blast
  then show ?thesis using Inr by (simp add: committed_def)
qed

lemma wf_db_after_unban_user:
  assumes "wf_db s"
  shows "wf_db (after nu s (UnbanUser rid t u))"
proof (cases "unban_user s rid t u")
  case (Inl e)
  then show ?thesis using assms by (simp add: committed_def)
next
  case (Inr s')
  from unban_user_Inr[OF this] wf_db_set_banned[OF assms] have "wf_db s'" by blast
  then show ?thesis using Inr by (simp add: committed_def)
qed

lemma after_other_tables:
  "rooms (after nu s (CreateTask rid td u)) = rooms s
     \<and> room_members (after nu s (CreateTask rid td u)) = room_members s"
  "rooms (after nu s (UpdateTask rid tid tu u)) = rooms s
     \<and> room_members (after nu s (UpdateTask rid tid tu u)) = room_members s"
  "rooms (after nu s (DeleteTask rid tid u)) = rooms s
     \<and> room_members (after nu s (DeleteTask rid tid u)) = room_members s"
  "rooms (after nu s (CreateMessage rid c u now)) = rooms s
     \<and> room_members (after nu s (CreateMessage rid c u now)) = room_members s"
proof -
  show "rooms (after nu s (CreateTask rid td u)) = rooms s
     \<and> room_members (after nu s (CreateTask rid td u)) = room_members s"
    by (cases "check_room_access s u rid") (simp_all add: create_task_def committed_def Let_def)
  show "rooms (after nu s (UpdateTask rid tid tu u)) = rooms s
     \<and> room_members (after nu s (UpdateTask rid tid tu u)) = room_members s"
    by (cases "check_room_access s u rid";
        cases "find (\<lambda>t. Task_id t = tid \<and> Task_room_id t = rid) (tasks s)")
       (simp_all add: update_task_def committed_def)
  show "rooms (after nu s (DeleteTask rid tid u)) = rooms s
     \<and> room_members (after nu s (DeleteTask rid tid u)) = room_members s"
    by (cases "check_room_access s u rid";
        cases "find (\<lambda>t. Task_id t = tid \<and> Task_room_id t = rid) (tasks s)")
       (simp_all add: delete_task_def committed_def)
  show "rooms (after nu s (CreateMessage rid c u now)) = rooms s
     \<and> room_members (after nu s (CreateMessage rid c u now)) = room_members s"
    by (cases "check_room_access s u rid") (simp_all add: create_message_def committed_def Let_def)
qed

lemma wf_db_after_other:
  assumes "wf_db s"
  shows "wf_db (after nu s (CreateTask rid td u))" "wf_db (after nu s (UpdateTask rid tid tu u))"
    "wf_db (after nu s (DeleteTask rid tid u))" "wf_db (after nu s (CreateMessage rid c u now))"
  using assms after_other_tables[where s = s] wf_db_same_tables by blast+

lemma wf_db_after: "wf_db s \<Longrightarrow> wf_db (after nu s rq)"
  by (cases rq)
     (simp_all only: wf_db_after_create_room wf_db_after_join_room wf_db_after_delete_room
        wf_db_after_leave_room wf_db_after_ban_user wf_db_after_unban_user
        wf_db_after_kick_user wf_db_after_other)

lemma wf_db_empty: "wf_db empty_db"
  by (simp add: wf_db_def empty_db_def unique_memberships_def)

lemma reachable_wf_db: "reachable nu s \<Longrightarrow> wf_db s"
  by (induction rule: reachable.induct) (simp_all add: wf_db_empty wf_db_after)

section \<open>Exactly one owner\<close>

lemma owners_after_join_room:
  "map RoomMember_user_id (owners (after nu s (JoinRoom code u now)) rid)
     = map RoomMember_user_id (owners s rid)"
  by (cases "find (\<lambda>r. Room_code r = upper nu code) (rooms s)";
      cases "find (\<lambda>m. RoomMember_room_id m = Room_id (the (find (\<lambda>r. Room_code r = upper nu code) (rooms s)))
                  \<and> RoomMember_user_id m = u) (room_members s)")
     (simp_all add: join_room_def committed_def owners_def Let_def)

lemma owners_after_leave_room:
  "map RoomMember_user_id (owners (after nu s (LeaveRoom r u)) rid)
     = map RoomMember_user_id (owners s rid)"
proof (cases "leave_room s r u")
  case (Inl e)
  then show ?thesis by (simp add: committed_def)
next
  case (Inr s')
  from leave_room_Inr[OF this] have "owners s' rid = owners s rid"
    by (auto simp: owners_def)
  then show ?thesis using Inr by (simp add: committed_def)
qed

lemma owners_after_kick_user:
  "map RoomMember_user_id (owners (after nu s (KickUser r t u)) rid)
     = map RoomMember_user_id (owners s rid)"
proof (cases "kick_user s r t u")
  case (Inl e)
  then show ?thesis by (simp add: committed_def)
next
  case (Inr s')
  from kick_user_Inr[OF this] have "owners s' rid = owners s rid"
    by (auto simp: owners_def)
  then show ?thesis using Inr by (simp add: committed_def)
qed

lemma owners_after_ban_user:
  "map RoomMember_user_id (owners (after nu s (BanUser r t u)) rid)
     = map RoomMember_user_id (owners s rid)"
proof (cases "ban_user s r t u")
  case (Inl e)
  then show ?thesis by (simp add: committed_def)
next
  case (Inr s')
  from ban_user_Inr[OF this] have "owners s' rid = owners s rid"
    by (auto simp: owners_def)
  then show ?thesis using Inr by (simp add: committed_def)
qed

lemma owners_after_unban_user:
  "map RoomMember_user_id (owners (after nu s (UnbanUser r t u)) rid)
     = map RoomMember_user_id (owners s rid)"
proof (cases "unban_user s r t u")
  case (Inl e)
  then show ?thesis by (simp add: committed_def)
next
  case (Inr s')
  from unban_user_Inr[OF this]
  have "map RoomMember_user_id (owners s' rid) = map RoomMember_user_id (owners s rid)"
    by (auto simp: owners_def)
  then show ?thesis using Inr by (simp add: committed_def)
qed

lemma create_room_owner:
  assumes "wf_db s" "create_room s rng name u now = Some (s', resp)"
  shows "RoomResponse_id resp \<in> Room_id ` set (rooms s')
     \<and> map RoomMember_user_id (owners s' (RoomResponse_id resp)) = [u]"
proof -
  from assms(2) obtain code where code: "generate_room_code s rng 6 = Some code"
    by (auto simp: create_room_def create_room_add_room_def split: option.splits)
  have refs: "\<forall>m \<in> set (room_members s). RoomMember_room_id m \<in> Room_id ` set (rooms s)"
    using assms(1) by (simp add: wf_db_def list_all_iff)
  have "next_id (map Room_id (rooms s)) \<notin> Room_id ` set (rooms s)"
    using next_id_fresh[of "map Room_id (rooms s)"] by simp
  with refs have "\<forall>m \<in> set (room_members s).
      RoomMember_room_id m \<noteq> next_id (map Room_id (rooms s))" by metis
  then have none: "filter (\<lambda>m. RoomMember_room_id m = next_id (map Room_id (rooms s))
      \<and> RoomMember_role m = OWNER) (room_members s) = []"
    by (simp add: filter_empty_conv)
  from assms(2) code none show ?thesis
    by (auto simp: create_room_def create_room_add_room_def create_room_add_membership_def
          Let_def room_response_def owners_def)
qed

text \<open>
  C1 (as amended). In every state the system reaches by serving requests, every room has
  exactly one membership with role OWNER. A completed room creation leaves the new room
  stored with its creator as the owner. Joining, leaving, banning, unbanning and kicking
  leave the owners of every room as they were.
\<close>

theorem C1_one_owner:
  assumes "reachable nu s"
  shows "(\<forall>room \<in> set (rooms s). length (owners s (Room_id room)) = 1)
     \<and> (\<forall>s' resp. create_room s rng name u now = Some (s', resp) \<longrightarrow>
          RoomResponse_id resp \<in> Room_id ` set (rooms s')
          \<and> map RoomMember_user_id (owners s' (RoomResponse_id resp)) = [u])
     \<and> (\<forall>rid. map RoomMember_user_id (owners (after nu s (JoinRoom code u now)) rid)
                = map RoomMember_user_id (owners s rid))
     \<and> (\<forall>rid. map RoomMember_user_id (owners (after nu s (LeaveRoom r u)) rid)
                = map RoomMember_user_id (owners s rid))
     \<and> (\<forall>rid. map RoomMember_user_id (owners (after nu s (BanUser r t u)) rid)
                = map RoomMember_user_id (owners s rid))
     \<and> (\<forall>rid. map RoomMember_user_id (owners (after nu s (UnbanUser r t u)) rid)
                = map RoomMember_user_id (owners s rid))
     \<and> (\<forall>rid. map RoomMember_user_id (owners (after nu s (KickUser r t u)) rid)
                = map RoomMember_user_id (owners s rid))"
proof -
  have wf: "wf_db s" using assms by (rule reachable_wf_db)
  then have "\<forall>room \<in> set (rooms s). length (owners s (Room_id room)) = 1"
    by (simp add: wf_db_def list_all_iff)
  moreover have "\<forall>s' resp. create_room s rng name u now = Some (s', resp) \<longrightarrow>
          RoomResponse_id resp \<in> Room_id ` set (rooms s')
          \<and> map RoomMember_user_id (owners s' (RoomResponse_id resp)) = [u]"
    using create_room_owner[OF wf] by blast
  ultimately show ?thesis
    by (simp only: owners_after_join_room owners_after_leave_room owners_after_ban_user
          owners_after_unban_user owners_after_kick_user simp_thms)
qed


lemma generate_room_code_empty: "generate_room_code empty_db rng_AB 6 = Some ''AAAAAA''"
proof -
  have "generate_room_code_from empty_db rng_AB 6 0
      = Some (choices rng_AB (0 + 0 * 6) alphabet 6)"
    by (rule generate_from_first_free) (simp_all add: empty_db_def)
  then show ?thesis by (simp add: generate_room_code_def choices_rng_AB)
qed

lemma create_room_add_room_example:
  "create_room_add_room empty_db rng_AB ''flat'' 1 0 = Some (db_first_commit, room_A)"
  by (simp add: create_room_add_room_def generate_room_code_empty Let_def)
     (simp add: empty_db_def db_first_commit_def room_A_def next_id_def)

lemma create_room_example:
  "create_room empty_db rng_AB ''flat'' 1 0 = Some (db_created, room_response room_A 1)"
  by (simp add: create_room_def create_room_add_room_example create_room_add_membership_def)
     (simp add: db_first_commit_def db_created_def member_def room_A_def next_id_def)

lemma reachable_db_created: "reachable nu db_created"
proof -
  have "reachable nu (after nu empty_db (CreateRoom rng_AB ''flat'' 1 0))"
    by (rule reachable.step) (rule reachable.init)
  then show ?thesis by (simp add: create_room_example)
qed

theorem C1_one_owner_witness:
  "reachable id db_created \<and> rooms db_created = [room_A]
   \<and> length (owners db_created (Room_id room_A)) = 1"
proof -
  have "\<forall>room \<in> set (rooms db_created). length (owners db_created (Room_id room)) = 1"
    using C1_one_owner[OF reachable_db_created] by blast
  then show ?thesis using reachable_db_created by (simp add: db_created_def)
qed

text \<open>
  C1 as stated fails. \<^verbatim>\<open>create_room\<close> commits the room before it adds the membership of
  the creator, so the database holds, after that first commit, a room with no membership
  of role OWNER.
\<close>

theorem C1_counterexample:
  "\<not> (\<forall>nu s. stored nu s \<longrightarrow> (\<forall>room \<in> set (rooms s). length (owners s (Room_id room)) = 1))"
proof
  assume a: "\<forall>nu s. stored nu s \<longrightarrow> (\<forall>room \<in> set (rooms s). length (owners s (Room_id room)) = 1)"
  have "stored id db_first_commit"
    using reachable.init create_room_add_room_example by (rule stored.first_commit)
  with a have "\<forall>room \<in> set (rooms db_first_commit).
      length (owners db_first_commit (Room_id room)) = 1" by blast
  then show False by (simp add: db_first_commit_def owners_def)
qed

section \<open>Banning and kicking\<close>









end
